(* ===== verification/Prelude.thy ===== *)
theory Prelude
  imports Main "HOL-Library.Sublist"
begin

text \<open>
  Python string semantics shared by every component of the model.
  A Python \<open>str\<close> is a sequence of code points; the model's \<open>string\<close> is a
  list of \<open>char\<close>, read as the code points 0 to 255 (Latin-1).  The character
  classes the program relies on (\<open>str.isspace\<close> for \<open>str.strip\<close>, the regular
  expression classes \<open>[a-zA-Z0-9]\<close> and \<open>[\W_0-9]\<close>, \<open>str.lower\<close>) are
  written out exactly for that range.  The string methods the program calls
  (\<open>startswith\<close>, \<open>endswith\<close>, \<open>in\<close>, \<open>strip\<close>, \<open>split\<close>, \<open>join\<close>) are
  the functions below; the collection \<open>py_eval\<close> gathers the rules that
  evaluate them on literals, so that witnesses run by \<open>simp\<close>.
\<close>

named_theorems py_eval "rules evaluating the Python string helpers on literals"

type_synonym pystr = string

subsection \<open>Character classes\<close>

definition py_isspace :: "char \<Rightarrow> bool" where
  "py_isspace c \<longleftrightarrow>
     (let n = (of_char c :: nat) in (9 \<le> n \<and> n \<le> 13) \<or> (28 \<le> n \<and> n \<le> 32) \<or> n = 133 \<or> n = 160)"

definition is_ascii_alnum :: "char \<Rightarrow> bool" where
  "is_ascii_alnum c \<longleftrightarrow>
     (let n = (of_char c :: nat) in (48 \<le> n \<and> n \<le> 57) \<or> (65 \<le> n \<and> n \<le> 90) \<or> (97 \<le> n \<and> n \<le> 122))"

text \<open>
  \<open>is_word_char c\<close>: \<open>c\<close> is not matched by \<open>[\W_0-9]\<close>, i.e. it is a Unicode
  word character (\<open>str.isalnum\<close> or \<open>_\<close>) other than \<open>_\<close> and an ASCII digit.
  These are the characters the analyser keeps in words.  In Latin-1 they are the
  ASCII letters, the Latin-1 letters, and also characters that are not letters:
  the superscripts \<open>\<^sup>2 \<^sup>3 \<^sup>1\<close> and the three vulgar fractions, which are
  \<open>str.isdigit\<close> or \<open>str.isnumeric\<close> and so word characters; the
  pattern removes only the ASCII digits \<open>0-9\<close>.
\<close>

definition is_word_char :: "char \<Rightarrow> bool" where
  "is_word_char c \<longleftrightarrow>
     (let n = (of_char c :: nat) in
        (65 \<le> n \<and> n \<le> 90) \<or> (97 \<le> n \<and> n \<le> 122) \<or>
        n \<in> {170, 178, 179, 181, 185, 186, 188, 189, 190} \<or>
        (192 \<le> n \<and> n \<le> 255 \<and> n \<noteq> 215 \<and> n \<noteq> 247))"

definition py_lower_char :: "char \<Rightarrow> char" where
  "py_lower_char c =
     (let n = (of_char c :: nat) in
        if (65 \<le> n \<and> n \<le> 90) \<or> (192 \<le> n \<and> n \<le> 222 \<and> n \<noteq> 215) then char_of (n + 32) else c)"

definition py_lower :: "pystr \<Rightarrow> pystr" where
  "py_lower s = map py_lower_char s"

subsection \<open>String methods\<close>

abbreviation startswith :: "pystr \<Rightarrow> pystr \<Rightarrow> bool" where
  "startswith s p \<equiv> prefix p s"

abbreviation endswith :: "pystr \<Rightarrow> pystr \<Rightarrow> bool" where
  "endswith s p \<equiv> suffix p s"

abbreviation py_contains :: "pystr \<Rightarrow> pystr \<Rightarrow> bool" where
  "py_contains s p \<equiv> sublist p s"

definition py_strip :: "pystr \<Rightarrow> pystr" where
  "py_strip s = rev (dropWhile py_isspace (rev (dropWhile py_isspace s)))"

text \<open>\<open>sep.join(xs)\<close>.\<close>

fun py_join :: "pystr \<Rightarrow> pystr list \<Rightarrow> pystr" where
  "py_join sep [] = []"
| "py_join sep [x] = x"
| "py_join sep (x # y # zs) = x @ sep @ py_join sep (y # zs)"

text \<open>\<open>s.split(c)\<close> for a one-character separator (also \<open>re.split\<close> with a
  one-character pattern): never empty, \<open>''''.split(c) = ['']\<close>.\<close>

fun py_split :: "char \<Rightarrow> pystr \<Rightarrow> pystr list" where
  "py_split c [] = [[]]"
| "py_split c (x # xs) =
     (let ws = py_split c xs in if x = c then [] # ws else (x # hd ws) # tl ws)"

text \<open>\<open>s.split(sep)[0]\<close>: the part of \<open>s\<close> before the first occurrence of
  \<open>sep\<close>, or all of \<open>s\<close>.\<close>

fun split_first :: "pystr \<Rightarrow> pystr \<Rightarrow> pystr" where
  "split_first [] sep = []"
| "split_first (c # cs) sep = (if prefix sep (c # cs) then [] else c # split_first cs sep)"

text \<open>\<open>filter(None, xs)\<close> on a list of strings drops the empty ones.\<close>

abbreviation filter_none :: "pystr list \<Rightarrow> pystr list" where
  "filter_none xs \<equiv> filter (\<lambda>s. s \<noteq> []) xs"

subsection \<open>Evaluation rules\<close>

lemmas [py_eval] = py_isspace_def is_ascii_alnum_def is_word_char_def py_lower_char_def
  py_lower_def py_strip_def suffix_to_prefix sublist_code Let_def

lemma eq_char_of_iff [py_eval]: "c = char_of n \<longleftrightarrow> take_bit 8 n = (of_char c :: nat)"
  by (metis char_of_eq_iff)

lemmas [py_eval] = char_of_eq_iff [where 'a = nat]

subsection \<open>Shared lemmas\<close>

lemma py_split_not_Nil [simp]: "py_split c s \<noteq> []"
  by (induction s) (auto simp: Let_def)

lemma py_strip_Nil_iff: "py_strip s = [] \<longleftrightarrow> (\<forall>x \<in> set s. py_isspace x)"
proof -
  have "dropWhile py_isspace (rev (dropWhile py_isspace s)) = [] \<longleftrightarrow> (\<forall>x \<in> set s. py_isspace x)"
    by (induction s) (auto simp: dropWhile_append)
  then show ?thesis by (simp add: py_strip_def)
qed

lemma py_join_Cons: "ys \<noteq> [] \<Longrightarrow> py_join sep (x # ys) = x @ sep @ py_join sep ys"
  by (cases ys) auto

lemma py_join_append:
  "xs \<noteq> [] \<Longrightarrow> ys \<noteq> [] \<Longrightarrow> py_join sep (xs @ ys) = py_join sep xs @ sep @ py_join sep ys"
proof (induction sep xs rule: py_join.induct)
  case (2 sep x)
  then show ?case by (cases ys) auto
qed auto

lemma py_join_Nil_iff:
  "\<forall>s \<in> set xs. s \<noteq> [] \<Longrightarrow> py_join sep xs = [] \<longleftrightarrow> xs = []"
  by (induction sep xs rule: py_join.induct) auto

lemma set_py_join: "set (py_join sep xs) \<subseteq> set sep \<union> \<Union> (set ` set xs)"
  by (induction sep xs rule: py_join.induct) auto

lemma set_split_first: "set (split_first s sep) \<subseteq> set s"
  by (induction s sep rule: split_first.induct) auto

lemma list_all_py_join:
  "list_all P sep \<Longrightarrow> list_all (list_all P) xs \<Longrightarrow> list_all P (py_join sep xs)"
  by (induction sep xs rule: py_join.induct) auto

text \<open>Joining joins: the nested \<open>"\n".join(filter(None, ...))\<close> of the renderer
  is one join of the concatenated parts, when every part is non-empty.\<close>

lemma py_join_filter_concat:
  assumes "\<forall>L \<in> set Ls. \<forall>s \<in> set L. s \<noteq> []"
  shows "py_join sep (filter_none (map (py_join sep) Ls)) = py_join sep (concat Ls)"
  using assms
proof (induction Ls)
  case Nil
  then show ?case by simp
next
  case (Cons L Ls)
  then have IH: "py_join sep (filter_none (map (py_join sep) Ls)) = py_join sep (concat Ls)"
    and ne: "\<forall>s \<in> set L. s \<noteq> []" and ne': "\<forall>s \<in> set (concat Ls). s \<noteq> []"
    by auto
  show ?case
  proof (cases "L = []")
    case True
    with IH show ?thesis by simp
  next
    case False
    with ne have jL: "py_join sep L \<noteq> []" by (simp add: py_join_Nil_iff)
    show ?thesis
    proof (cases "concat Ls = []")
      case True
      then have "\<forall>L' \<in> set Ls. L' = []" by simp
      then have "filter_none (map (py_join sep) Ls) = []"
        by (auto simp: filter_empty_conv)
      with True jL show ?thesis by (simp del: concat_eq_Nil_conv)
    next
      case c: False
      then have "py_join sep (concat Ls) \<noteq> []" using ne' by (simp add: py_join_Nil_iff)
      with IH have "filter_none (map (py_join sep) Ls) \<noteq> []" by auto
      with jL IH c False show ?thesis
        by (simp add: py_join_append py_join_Cons)
    qed
  qed
qed

end
