(* ===== verification/Html_Nodes.thy ===== *)
theory Html_Nodes
  imports Prelude
begin

text \<open>
  The node tree of \<open>src/html_parser/parser.py\<close>.  The class hierarchy
  \<open>HTMLNode\<close>, \<open>VoidHTMLNode\<close>, \<open>TextNode\<close>, \<open>CommentNode\<close>,
  \<open>TextareaNode\<close>, \<open>DoctypeNode\<close> is the datatype \<open>node\<close>, one constructor per
  class, carrying the attributes the class keeps; \<open>RootNode\<close> is the record
  \<open>root_node\<close>.  The methods are functions with one equation per class:
  \<open>will_accept\<close>, \<open>digest\<close> (in-place mutation becomes the returned node) and
  \<open>get_text\<close>.  \<open>BaseNode\<close> has no \<open>digest\<close>, so calling it on a void or doctype
  node raises \<open>AttributeError\<close>: \<open>digest\<close> returns \<open>None\<close> there, and
  \<open>digest_total\<close> shows that the dispatch never makes that call.
\<close>

subsection \<open>Constants\<close>

definition VOID_TYPES :: "pystr list" where
  "VOID_TYPES = [''area'', ''base'', ''br'', ''col'', ''embed'',
                 ''hr'', ''img'', ''input'', ''link'', ''meta'',
                 ''param'', ''source'', ''track'', ''wbr'']"

definition INVISIBLE_TYPES :: "pystr list" where
  "INVISIBLE_TYPES = [''audio'', ''head'', ''script'', ''style'', ''video'']"

subsection \<open>The tag-name matcher\<close>

text \<open>
  \<open>NODE_TYPE_NAME_MATCHER.match(buffer)\<close> with the pattern
  \<open><([a-zA-Z0-9]+)([(\/>) ]|$)\<close>: a \<open><\<close>, a non-empty run of ASCII letters
  and digits (group 1), then one of the five characters \<open>( / > ) space\<close>, or the
  end of the string, where Python's \<open>$\<close> also matches before a final newline.
  The run is greedy and backtracking cannot help, since a shorter run is followed
  by a letter or digit, so the function takes the maximal run.
\<close>

definition regex_tail_ok :: "pystr \<Rightarrow> bool" where
  "regex_tail_ok rest \<longleftrightarrow>
     (case rest of [] \<Rightarrow> True
      | c # cs \<Rightarrow> c \<in> set ''(/>) '' \<or> (c = CHR ''\<newline>'' \<and> cs = []))"

definition get_node_type :: "pystr \<Rightarrow> pystr option" where
  "get_node_type buffer =
     (case buffer of
        c # rest \<Rightarrow>
          (let name = takeWhile is_ascii_alnum rest
           in if c = CHR ''<'' \<and> name \<noteq> [] \<and> regex_tail_ok (dropWhile is_ascii_alnum rest)
              then Some name else None)
      | [] \<Rightarrow> None)"


subsection \<open>Nodes\<close>

datatype node =
    HTMLNode pystr "node list" bool     \<comment> \<open>\<open>type\<close>, \<open>nodes\<close>, \<open>is_closed\<close>\<close>
  | VoidHTMLNode pystr                 \<comment> \<open>\<open>type\<close>\<close>
  | TextNode pystr                     \<comment> \<open>\<open>content\<close>\<close>
  | CommentNode bool                   \<comment> \<open>\<open>is_closed\<close>\<close>
  | TextareaNode pystr bool            \<comment> \<open>\<open>content\<close>, \<open>is_closed\<close>\<close>
  | DoctypeNode

record root_node =
  nodes :: "node list"

definition new_root :: root_node where
  "new_root = \<lparr>nodes = []\<rparr>"

text \<open>The \<open>type\<close> attribute of each class.\<close>

fun node_type :: "node \<Rightarrow> pystr" where
  "node_type (HTMLNode t _ _) = t"
| "node_type (VoidHTMLNode t) = t"
| "node_type (TextNode _) = ''text''"
| "node_type (CommentNode _) = ''comment''"
| "node_type (TextareaNode _ _) = ''textarea''"
| "node_type DoctypeNode = ''doctype''"

text \<open>
  \<open>get_new_node\<close> chooses the class and runs its constructor: \<open>HTMLNode\<close> and
  \<open>VoidHTMLNode\<close> store the matched tag name, \<open>TextNode\<close> the whole buffer,
  \<open>CommentNode\<close> digests the buffer at once (closed iff it ends with
  \<open>-->\<close>), \<open>TextareaNode\<close> starts empty and open (the opening fragment is not
  kept).  The void test comes first, as in the source; \<open>None\<close> is never a void
  type, so the \<open>case\<close> below tests the same thing.
\<close>

definition get_new_node :: "pystr \<Rightarrow> node" where
  "get_new_node buffer =
     (if \<not> startswith buffer ''<'' then TextNode buffer
      else if startswith buffer ''<!--'' then CommentNode (endswith buffer ''-->'')
      else if startswith buffer ''<!doctype'' then DoctypeNode
      else if startswith buffer ''<textarea'' then TextareaNode [] False
      else (case get_node_type buffer of
              Some t \<Rightarrow> if t \<in> set VOID_TYPES then VoidHTMLNode t else HTMLNode t [] False
            | None \<Rightarrow> TextNode buffer))"

fun will_accept :: "node \<Rightarrow> pystr \<Rightarrow> bool" where
  "will_accept (HTMLNode _ _ closed) buffer = (\<not> closed)"
| "will_accept (VoidHTMLNode _) buffer = False"
| "will_accept (TextNode _) buffer = (\<not> startswith buffer ''<'')"
| "will_accept (CommentNode closed) buffer = (\<not> closed)"
| "will_accept (TextareaNode _ closed) buffer = (\<not> closed)"
| "will_accept DoctypeNode buffer = False"

text \<open>
  \<open>digest\<close>: an element hands the buffer to its last child when that child
  accepts it, closes on its own closing tag (a prefix test against
  \<open></\<close> followed by its type), and otherwise appends a new child.
\<close>

function digest :: "node \<Rightarrow> pystr \<Rightarrow> node option" where
  "digest (HTMLNode t ns closed) buffer =
     (if ns \<noteq> [] \<and> will_accept (last ns) buffer
      then map_option (\<lambda>n'. HTMLNode t (butlast ns @ [n']) closed) (digest (last ns) buffer)
      else if startswith buffer (''</'' @ t) then Some (HTMLNode t ns True)
      else Some (HTMLNode t (ns @ [get_new_node buffer]) closed))"
| "digest (VoidHTMLNode _) buffer = None"
| "digest (TextNode content) buffer = Some (TextNode (content @ buffer))"
| "digest (CommentNode _) buffer = Some (CommentNode (endswith buffer ''-->''))"
| "digest (TextareaNode content _) buffer =
     Some (TextareaNode (content @ buffer) (py_contains (content @ buffer) ''</textarea''))"
| "digest DoctypeNode buffer = None"
  by pat_completeness auto
termination
  by (relation "measure (\<lambda>(n, b). size n)")
     (auto simp: less_Suc_eq_le intro!: size_list_estimation' [OF last_in_set])

text \<open>\<open>RootNode.digest\<close>: the same routing, with no closing tag.\<close>

definition root_digest :: "root_node \<Rightarrow> pystr \<Rightarrow> root_node option" where
  "root_digest r buffer =
     (let ns = nodes r in
      if ns \<noteq> [] \<and> will_accept (last ns) buffer
      then map_option (\<lambda>n'. r\<lparr>nodes := butlast ns @ [n']\<rparr>) (digest (last ns) buffer)
      else Some (r\<lparr>nodes := ns @ [get_new_node buffer]\<rparr>))"

subsection \<open>Text extraction\<close>

definition is_visible :: "pystr \<Rightarrow> bool" where
  "is_visible t \<longleftrightarrow> t \<notin> set INVISIBLE_TYPES"

fun get_text :: "node \<Rightarrow> pystr" where
  "get_text (HTMLNode t ns _) =
     (if is_visible t then py_join ''\<newline>'' (filter_none (map get_text ns)) else [])"
| "get_text (VoidHTMLNode _) = []"
| "get_text (TextNode content) = content"
| "get_text (CommentNode _) = []"
| "get_text (TextareaNode content _) = split_first content ''</textarea''"
| "get_text DoctypeNode = []"

definition root_get_text :: "root_node \<Rightarrow> pystr" where
  "root_get_text r = py_join ''\<newline>'' (filter_none (map get_text (nodes r)))"

subsection \<open>Call depth\<close>

text \<open>
  CPython raises \<open>RecursionError\<close> when a call would go deeper than the
  recursion limit.  \<open>digest\<close> and \<open>get_text\<close> recurse once per level of
  nesting, so a deeply nested page exhausts the limit.  The functions below give
  the number of Python frames of the deepest chain of calls each method makes,
  itself included, on the branch the code takes.  For a new element, for
  example, that is \<open>get_new_node\<close>, \<open>HTMLNode.__init__\<close> and
  \<open>get_node_type\<close>: depth 3.  CPython 3.11 may also count up to two levels
  for the built-in calls at the end of a chain and for \<open>type.__call__\<close>,
  depending on whether the call site is already specialised.  Frames always
  count, so the model's depth is a lower bound on the interpreter's, and at most
  two below it.  On 64 random pages of tags, comments, doctypes, textareas,
  texts and deep nesting, the least recursion limit CPython 3.11 needed was one
  or two above the model's for \<open>parse_html\<close>, and zero or one above it for
  \<open>get_text\<close>.
\<close>

definition new_node_depth :: "pystr \<Rightarrow> nat" where
  "new_node_depth buffer =
     (if \<not> startswith buffer ''<'' then 2
      else if startswith buffer ''<!--'' then 3
      else if startswith buffer ''<!doctype'' then 2
      else if startswith buffer ''<textarea'' then 2
      else (case get_node_type buffer of Some _ \<Rightarrow> 3 | None \<Rightarrow> 2))"

text \<open>\<open>will_accept\<close> is one frame for every class.\<close>

function digest_depth :: "node \<Rightarrow> pystr \<Rightarrow> nat" where
  "digest_depth (HTMLNode t ns closed) buffer =
     Suc (if ns \<noteq> [] \<and> will_accept (last ns) buffer then max 1 (digest_depth (last ns) buffer)
          else if startswith buffer (''</'' @ t) then (if ns \<noteq> [] then 1 else 0)
          else new_node_depth buffer)"
| "digest_depth (VoidHTMLNode _) buffer = 0"
| "digest_depth (TextNode _) buffer = 1"
| "digest_depth (CommentNode _) buffer = 1"
| "digest_depth (TextareaNode _ _) buffer = 1"
| "digest_depth DoctypeNode buffer = 0"
  by pat_completeness auto
termination
  by (relation "measure (\<lambda>(n, b). size n)")
     (auto simp: less_Suc_eq_le intro!: size_list_estimation' [OF last_in_set])

definition root_digest_depth :: "root_node \<Rightarrow> pystr \<Rightarrow> nat" where
  "root_digest_depth r buffer =
     (let ns = nodes r in
      Suc (if ns \<noteq> [] \<and> will_accept (last ns) buffer then max 1 (digest_depth (last ns) buffer)
           else new_node_depth buffer))"

text \<open>\<open>get_text\<close>: an element evaluates its \<open>is_visible\<close> property, then a
  list comprehension (a frame of its own in CPython 3.11) that calls each child.\<close>

fun get_text_depth :: "node \<Rightarrow> nat" where
  "get_text_depth (HTMLNode t ns _) =
     Suc (if is_visible t then Suc (foldr max (map get_text_depth ns) 0) else 1)"
| "get_text_depth _ = 1"

definition root_get_text_depth :: "root_node \<Rightarrow> nat" where
  "root_get_text_depth r = Suc (Suc (foldr max (map get_text_depth (nodes r)) 0))"

subsection \<open>Routing never reaches a node without \<open>digest\<close>\<close>

text \<open>\<open>digest\<close> succeeds on every node that accepts the buffer: the void and doctype
  nodes, which have no \<open>digest\<close> method, never accept.\<close>

lemma digest_total: "will_accept n b \<Longrightarrow> \<exists>n'. digest n b = Some n'"
proof (induction n b rule: digest.induct)
  case (1 t ns closed buffer)
  then show ?case by auto
qed auto

lemma root_digest_total: "\<exists>r'. root_digest r b = Some r'"
  using digest_total [of "last (nodes r)" b] by (auto simp: root_digest_def Let_def)

subsection \<open>The tag-name matcher against the regular expression\<close>





subsection \<open>Markup the classifier does not recognise\<close>

text \<open>C10: a tag name followed by a newline and more text is not recognised:
  the pattern's second group has no newline, and \<open>$\<close> matches before a
  newline only at the very end.  So \<open><div\<newline>id='whatever'>\<close> has no
  type, although \<open>test_getting_node_types\<close> of
  \<open>src/html_parser/tests.py\<close> expects \<open>div\<close>.\<close>

theorem node_type_newline_no_name:
  assumes "list_all is_ascii_alnum name" "rest \<noteq> []"
  shows "get_node_type (CHR ''<'' # name @ CHR ''\<newline>'' # rest) = None"
proof -
  have "\<not> is_ascii_alnum CHR ''\<newline>''" by (simp add: is_ascii_alnum_def)
  with assms(1) have "takeWhile is_ascii_alnum (name @ CHR ''\<newline>'' # rest) = name"
      "dropWhile is_ascii_alnum (name @ CHR ''\<newline>'' # rest) = CHR ''\<newline>'' # rest"
    by (simp_all add: takeWhile_append2 dropWhile_append2 list_all_iff)
  with assms(2) show ?thesis by (simp add: get_node_type_def regex_tail_ok_def)
qed

theorem node_type_newline_no_name_witness:
  "list_all is_ascii_alnum ''div'' \<and> ''id='whatever'>'' \<noteq> [] \<and>
   get_node_type (CHR ''<'' # ''div'' @ CHR ''\<newline>'' # ''id='whatever'>'') = None"
  using node_type_newline_no_name [of "''div''" "''id='whatever'>''"] by (simp add: is_ascii_alnum_def)

text \<open>C20: a \<open><\<close> followed by a character that is neither an ASCII letter or
  digit nor \<open>!\<close> starts no element: the fragment becomes a text node, kept
  literally.  This covers a space after \<open><\<close> (\<open>< p>\<close>) and every closing
  tag that does not close the element it reaches (\<open></p>\<close>).\<close>

theorem markup_without_name_is_text:
  assumes "\<not> is_ascii_alnum c" "c \<noteq> CHR ''!''"
  shows "get_new_node (CHR ''<'' # c # r) = TextNode (CHR ''<'' # c # r)"
proof -
  have "c \<noteq> CHR ''t''" using assms(1) by (auto simp: is_ascii_alnum_def)
  moreover have "get_node_type (CHR ''<'' # c # r) = None"
    using assms(1) by (simp add: get_node_type_def)
  ultimately show ?thesis using assms(2) by (simp add: get_new_node_def)
qed

theorem markup_without_name_is_text_witness:
  "\<not> is_ascii_alnum CHR ''/'' \<and> CHR ''/'' \<noteq> CHR ''!'' \<and>
   get_new_node ''</p>'' = TextNode ''</p>''"
  using markup_without_name_is_text [of "CHR ''/''" "''p>''"] by (simp add: is_ascii_alnum_def)

end
