(* ===== verification/Tokenizer.thy ===== *)
theory Tokenizer
  imports Html_Nodes
begin

text \<open>
  The character loop of \<open>parse_html\<close> (\<open>src/html_parser/parser.py\<close>): one
  buffer, flushed to the root on \<open><\<close> (unless it is only whitespace) and on
  \<open>>\<close> (with the \<open>>\<close>).  \<open>parse_loop\<close> is the \<open>for\<close> loop, with the
  root and the buffer as its state; what is left in the buffer at the end is
  dropped, as in the source.  \<open>split_fragments\<close> is the segmentation alone,
  without the tree, and \<open>digest_all\<close> feeds a list of fragments to the root:
  \<open>parse_loop_fragments\<close> shows that the interleaved loop is segmentation
  followed by routing, so that tokenizer and tree can be studied apart.
\<close>

fun parse_loop :: "root_node \<Rightarrow> pystr \<Rightarrow> pystr \<Rightarrow> root_node option" where
  "parse_loop root buffer [] = Some root"
| "parse_loop root buffer (letter # html) =
     (if letter = CHR ''<'' then
        (if py_strip buffer \<noteq> [] then
           (case root_digest root buffer of
              None \<Rightarrow> None
            | Some root' \<Rightarrow> parse_loop root' ''<'' html)
         else parse_loop root ''<'' html)
      else if letter = CHR ''>'' then
        (case root_digest root (buffer @ [letter]) of
           None \<Rightarrow> None
         | Some root' \<Rightarrow> parse_loop root' [] html)
      else parse_loop root (buffer @ [letter]) html)"

definition parse_html :: "pystr \<Rightarrow> root_node option" where
  "parse_html html = parse_loop new_root [] html"

text \<open>The rules that evaluate a parse of a literal string by \<open>simp\<close>.\<close>

lemmas parse_eval = parse_html_def new_root_def root_digest_def get_new_node_def
  get_node_type_def regex_tail_ok_def VOID_TYPES_def py_eval

subsection \<open>Segmentation\<close>

fun split_fragments :: "pystr \<Rightarrow> pystr \<Rightarrow> pystr list \<times> pystr" where
  "split_fragments buffer [] = ([], buffer)"
| "split_fragments buffer (letter # html) =
     (if letter = CHR ''<'' then apfst (Cons buffer) (split_fragments ''<'' html)
      else if letter = CHR ''>'' then apfst (Cons (buffer @ [letter])) (split_fragments [] html)
      else split_fragments (buffer @ [letter]) html)"

fun digest_all :: "root_node \<Rightarrow> pystr list \<Rightarrow> root_node option" where
  "digest_all root [] = Some root"
| "digest_all root (f # fs) =
     (case root_digest root f of None \<Rightarrow> None | Some root' \<Rightarrow> digest_all root' fs)"

definition delivered :: "pystr \<Rightarrow> bool" where
  "delivered f \<longleftrightarrow> py_strip f \<noteq> []"

fun boundary_ok :: "pystr list \<Rightarrow> bool" where
  "boundary_ok (a # b # r) = ((startswith b ''<'' \<or> endswith a ''>'') \<and> boundary_ok (b # r))"
| "boundary_ok _ = True"

text \<open>\<open>parse_steps\<close> runs the same loop and also returns the buffer, so that a
  run on \<open>s @ t\<close> is a run on \<open>s\<close> followed by a run on \<open>t\<close>.\<close>

fun parse_steps :: "root_node \<Rightarrow> pystr \<Rightarrow> pystr \<Rightarrow> (root_node \<times> pystr) option" where
  "parse_steps root buffer [] = Some (root, buffer)"
| "parse_steps root buffer (letter # html) =
     (if letter = CHR ''<'' then
        (if py_strip buffer \<noteq> [] then
           (case root_digest root buffer of
              None \<Rightarrow> None
            | Some root' \<Rightarrow> parse_steps root' ''<'' html)
         else parse_steps root ''<'' html)
      else if letter = CHR ''>'' then
        (case root_digest root (buffer @ [letter]) of
           None \<Rightarrow> None
         | Some root' \<Rightarrow> parse_steps root' [] html)
      else parse_steps root (buffer @ [letter]) html)"

subsection \<open>The loop is segmentation followed by routing\<close>

lemma delivered_close: "delivered (buffer @ [CHR ''>''])"
  by (simp add: delivered_def py_strip_Nil_iff py_isspace_def)

lemma parse_loop_total: "\<exists>r'. parse_loop root buffer html = Some r'"
proof (induction html arbitrary: root buffer)
  case (Cons letter html)
  then show ?case
    using root_digest_total [of root buffer] root_digest_total [of root "buffer @ [letter]"]
    by (auto split: option.splits)
qed simp

text \<open>C5: the interleaved loop delivers exactly the non-blank fragments of the
  segmentation, in order, to the root.\<close>

theorem parse_loop_fragments:
  "parse_loop root buffer html =
     digest_all root (filter delivered (fst (split_fragments buffer html)))"
proof (induction html arbitrary: root buffer)
  case Nil
  then show ?case by simp
next
  case (Cons letter html)
  show ?case
  proof (cases "letter = CHR ''<''")
    case True
    then show ?thesis
      by (auto simp: Cons.IH delivered_def split: option.splits)
  next
    case lt: False
    show ?thesis
    proof (cases "letter = CHR ''>''")
      case True
      with lt show ?thesis
        using delivered_close [of buffer]
        by (auto simp: Cons.IH split: option.splits)
    next
      case False
      with lt show ?thesis by (simp add: Cons.IH)
    qed
  qed
qed

subsection \<open>Closing a comment on the last fragment\<close>

text \<open>\<open>CommentNode.digest\<close> keeps no content and tests only the latest fragment
  for \<open>-->\<close>.  For the fragments the loop delivers this agrees with testing the
  whole accumulated content.  The fragment before one that does not start with
  \<open><\<close> always ends with \<open>>\<close>, so a short fragment such as \<open>->\<close> can never
  complete a \<open>-->\<close> begun in the previous one.  \<open>boundary_ok\<close> is that
  property of neighbouring fragments.\<close>

lemma split_fragments_hd:
  "fst (split_fragments buffer html) = f # fs \<Longrightarrow> prefix buffer f"
  by (induction html arbitrary: buffer) (auto split: if_splits dest: append_prefixD)

lemma boundary_ok_split_fragments: "boundary_ok (fst (split_fragments buffer html))"
proof (induction html arbitrary: buffer)
  case (Cons letter html)
  have lt: "boundary_ok (buffer # fst (split_fragments ''<'' html))"
    using Cons.IH [of "''<''"] split_fragments_hd [of "''<''" html]
    by (cases "fst (split_fragments ''<'' html)") (auto simp: prefix_def)
  have gt: "boundary_ok ((buffer @ ''>'') # fst (split_fragments [] html))"
    using Cons.IH [of "[]"] by (cases "fst (split_fragments [] html)") auto
  show ?case using lt gt Cons.IH [of "buffer @ [letter]"] by auto
qed simp

lemma boundary_ok_tl: "boundary_ok (a # r) \<Longrightarrow> boundary_ok r"
  by (cases r) auto

lemma boundary_ok_skip:
  "boundary_ok (a # b # r) \<Longrightarrow> \<not> endswith b ''>'' \<Longrightarrow> boundary_ok (a # r)"
  by (cases r) auto

lemma boundary_ok_filter_Cons:
  "boundary_ok (a # xs) \<Longrightarrow> \<forall>x \<in> set xs. \<not> P x \<longrightarrow> \<not> endswith x ''>'' \<Longrightarrow>
   boundary_ok (a # filter P xs)"
proof (induction xs arbitrary: a)
  case (Cons b r)
  show ?case
  proof (cases "P b")
    case True
    with Cons boundary_ok_tl [of a "b # r"] show ?thesis by simp
  next
    case False
    with Cons.prems have "boundary_ok (a # r)" by (auto intro: boundary_ok_skip)
    with False Cons show ?thesis by simp
  qed
qed simp

lemma boundary_ok_filter:
  "boundary_ok xs \<Longrightarrow> \<forall>x \<in> set xs. \<not> P x \<longrightarrow> \<not> endswith x ''>'' \<Longrightarrow>
   boundary_ok (filter P xs)"
proof (induction xs)
  case (Cons a r)
  then show ?case
    by (cases "P a") (auto intro: boundary_ok_filter_Cons dest: boundary_ok_tl)
qed simp

lemma not_delivered_no_gt: "\<not> delivered x \<Longrightarrow> \<not> endswith x ''>''"
  by (auto simp: delivered_def py_strip_Nil_iff py_isspace_def suffix_def)

lemma delivered_not_Nil: "delivered x \<Longrightarrow> x \<noteq> []"
  by (auto simp: delivered_def py_strip_def)

lemma boundary_ok_delivered: "boundary_ok (filter delivered (fst (split_fragments buffer html)))"
  using boundary_ok_split_fragments not_delivered_no_gt by (blast intro: boundary_ok_filter)

lemma boundary_ok_append: "boundary_ok (as @ g # f # bs) \<Longrightarrow> startswith f ''<'' \<or> endswith g ''>''"
  by (induction as rule: induct_list012) auto

lemma suffix_close_extend:
  assumes ne: "f \<noteq> []" and bd: "startswith f ''<'' \<or> endswith g ''>''"
  shows "endswith (y @ g @ f) ''-->'' \<longleftrightarrow> endswith f ''-->''"
proof
  assume "suffix ''-->'' (y @ g @ f)"
  then have p: "prefix ''>--'' (rev f @ rev g @ rev y)" by (simp add: suffix_to_prefix)
  have g: "prefix ''<'' f \<or> prefix ''>'' (rev g)" using bd by (simp add: suffix_to_prefix)
  show "suffix ''-->'' f"
  proof (cases "rev f")
    case Nil
    with ne show ?thesis by simp
  next
    case (Cons c r1)
    show ?thesis
    proof (cases r1)
      case Nil
      with Cons p have "c = CHR ''>''" and p2: "prefix ''--'' (rev g @ rev y)" by auto
      moreover from Cons Nil have "f = [c]" by (metis rev_rev_ident rev_singleton_conv)
      ultimately have "prefix ''>'' (rev g)" using g by auto
      with p2 show ?thesis by (auto simp: prefix_def)
    next
      case (Cons d r2)
      show ?thesis
      proof (cases r2)
        case Nil
        with Cons \<open>rev f = c # r1\<close> p have "c = CHR ''>''" and "d = CHR ''-''"
          and p2: "prefix ''-'' (rev g @ rev y)" by auto
        moreover from Nil Cons \<open>rev f = c # r1\<close> have "f = [d, c]"
          by (metis rev.simps rev_rev_ident append.simps)
        ultimately have "prefix ''>'' (rev g)" using g by auto
        with p2 show ?thesis by (auto simp: prefix_def)
      next
        case (Cons e r3)
        with \<open>r1 = d # r2\<close> \<open>rev f = c # r1\<close> p show ?thesis
          by (auto simp: suffix_to_prefix)
      qed
    qed
  qed
next
  assume "suffix ''-->'' f"
  then show "suffix ''-->'' (y @ g @ f)" by (auto simp: suffix_def)
qed

text \<open>C24: for any two consecutive fragments the loop delivers, the comment's
  closing test on the last fragment gives the same answer as the test on any
  content ending with both.\<close>

theorem comment_close_last_fragment:
  assumes "filter delivered (fst (split_fragments [] html)) = as @ g # f # bs"
  shows "digest (CommentNode False) f = Some (CommentNode (endswith (content @ g @ f) ''-->''))"
proof -
  have "boundary_ok (as @ g # f # bs)" using boundary_ok_delivered [of "[]" html] assms by simp
  then have b: "startswith f ''<'' \<or> endswith g ''>''" by (rule boundary_ok_append)
  have "f \<in> set (filter delivered (fst (split_fragments [] html)))" using assms by simp
  then have "delivered f" by simp
  then have "f \<noteq> []" by (rule delivered_not_Nil)
  with b show ?thesis by (simp add: suffix_close_extend)
qed

theorem comment_close_last_fragment_witness:
  "filter delivered (fst (split_fragments [] ''<!-- x >--><'')) = [] @ ''<!-- x >'' # ''-->'' # [] \<and>
   digest (CommentNode False) ''-->'' = Some (CommentNode (endswith ([] @ ''<!-- x >'' @ ''-->'') ''-->''))"
proof -
  have h: "filter delivered (fst (split_fragments [] ''<!-- x >--><'')) = [] @ ''<!-- x >'' # ''-->'' # []"
    by (simp add: delivered_def py_eval)
  show ?thesis using comment_close_last_fragment [OF h, of "[]"] h by simp
qed

subsection \<open>The loop state after a prefix\<close>

lemma parse_loop_steps: "parse_loop root buffer html = map_option fst (parse_steps root buffer html)"
  by (induction html arbitrary: root buffer) (auto split: option.splits)

lemma parse_steps_append:
  "parse_steps root buffer (s @ t) =
     (case parse_steps root buffer s of None \<Rightarrow> None | Some (r, b) \<Rightarrow> parse_steps r b t)"
  by (induction s arbitrary: root buffer) (auto split: option.splits)

subsection \<open>Textarea content is not parsed\<close>

lemma digest_all_textarea:
  "\<not> py_contains (c @ concat fs) ''</textarea'' \<Longrightarrow> nodes root = ns @ [TextareaNode c False] \<Longrightarrow>
   digest_all root fs = Some (root\<lparr>nodes := ns @ [TextareaNode (c @ concat fs) False]\<rparr>)"
proof (induction fs arbitrary: root c)
  case Nil
  then show ?case by simp
next
  case (Cons f fs)
  have nc: "\<not> py_contains (c @ f) ''</textarea''"
    using Cons.prems(1) sublist_order.order.trans [of "''</textarea''" "c @ f" "c @ f @ concat fs"]
    by auto
  with Cons.prems(2) have "root_digest root f = Some (root\<lparr>nodes := ns @ [TextareaNode (c @ f) False]\<rparr>)"
    by (simp add: root_digest_def)
  with Cons.IH [of "c @ f" "root\<lparr>nodes := ns @ [TextareaNode (c @ f) False]\<rparr>"] Cons.prems(1)
  show ?case by simp
qed

text \<open>C25: textarea content is not parsed: after an opening \<open><textarea>\<close> the whole
  rest of the input that the loop delivers goes, unparsed, into one open textarea,
  as long as no \<open></textarea\<close> occurs in it.\<close>

theorem textarea_opaque:
  assumes "\<not> py_contains (concat (filter delivered (fst (split_fragments [] s)))) ''</textarea''"
  shows "parse_html (''<textarea>'' @ s) =
    Some \<lparr>nodes = [TextareaNode (concat (filter delivered (fst (split_fragments [] s)))) False]\<rparr>"
proof -
  have "parse_html (''<textarea>'' @ s) = parse_loop \<lparr>nodes = [TextareaNode [] False]\<rparr> [] s"
    by (simp add: parse_eval)
  also have "\<dots> = digest_all \<lparr>nodes = [TextareaNode [] False]\<rparr> (filter delivered (fst (split_fragments [] s)))"
    by (rule parse_loop_fragments)
  also have "\<dots> = Some \<lparr>nodes = [TextareaNode (concat (filter delivered (fst (split_fragments [] s)))) False]\<rparr>"
    using digest_all_textarea [of "[]" "filter delivered (fst (split_fragments [] s))"
        "\<lparr>nodes = [TextareaNode [] False]\<rparr>" "[]"] assms
    by simp
  finally show ?thesis .
qed

theorem textarea_opaque_witness:
  "\<not> py_contains (concat (filter delivered (fst (split_fragments [] ''<p>hi</p>x'')))) ''</textarea'' \<and>
   parse_html (''<textarea>'' @ ''<p>hi</p>x'') = Some \<lparr>nodes = [TextareaNode ''<p>hi</p>'' False]\<rparr>"
proof -
  have h: "\<not> py_contains (concat (filter delivered (fst (split_fragments [] ''<p>hi</p>x'')))) ''</textarea''"
    by (simp add: delivered_def py_eval)
  have c: "concat (filter delivered (fst (split_fragments [] ''<p>hi</p>x''))) = ''<p>hi</p>''"
    by (simp add: delivered_def py_eval)
  show ?thesis using textarea_opaque [OF h] h c by simp
qed
end
