(* ===== verification/Tree_Invariants.thy ===== *)
theory Tree_Invariants
  imports Tokenizer
begin

text \<open>
  The shape the routing of \<open>src/html_parser/parser.py\<close> keeps.  A node is
  \<^emph>\<open>open\<close> when it can still take a tag fragment (an element, comment or
  textarea that is not closed).  \<open>spine_wf\<close> is the right-spine invariant: in every
  element only the last child may be open, and a closed element has no open
  child; \<open>root_wf\<close> is the same for the root.  \<open>grows\<close> is how a node may change
  from one step to the next: a closed element, comment or textarea never changes
  again, text only gets longer, and a child list keeps every child but the last
  and lets the last one grow.
\<close>

fun is_open :: "node \<Rightarrow> bool" where
  "is_open (HTMLNode _ _ closed) = (\<not> closed)"
| "is_open (CommentNode closed) = (\<not> closed)"
| "is_open (TextareaNode _ closed) = (\<not> closed)"
| "is_open _ = False"

fun spine_wf :: "node \<Rightarrow> bool" where
  "spine_wf (HTMLNode t ns closed) =
     ((\<forall>n \<in> set (butlast ns). \<not> is_open n) \<and> (closed \<longrightarrow> (\<forall>n \<in> set ns. \<not> is_open n)) \<and>
      (\<forall>n \<in> set ns. spine_wf n))"
| "spine_wf _ = True"

definition root_wf :: "root_node \<Rightarrow> bool" where
  "root_wf r \<longleftrightarrow> (\<forall>n \<in> set (butlast (nodes r)). \<not> is_open n) \<and> (\<forall>n \<in> set (nodes r). spine_wf n)"

fun grows :: "node \<Rightarrow> node \<Rightarrow> bool"
  and grows_list :: "node list \<Rightarrow> node list \<Rightarrow> bool" where
  "grows (HTMLNode t ns closed) (HTMLNode t' ns' closed') =
     (t' = t \<and> (if closed then ns' = ns \<and> closed' else grows_list ns ns'))"
| "grows (TextNode s) (TextNode s') = prefix s s'"
| "grows (CommentNode closed) (CommentNode closed') = (closed \<longrightarrow> closed')"
| "grows (TextareaNode s closed) (TextareaNode s' closed') =
     (if closed then s' = s \<and> closed' else prefix s s')"
| "grows (VoidHTMLNode t) n' = (n' = VoidHTMLNode t)"
| "grows DoctypeNode n' = (n' = DoctypeNode)"
| "grows _ _ = False"
| "grows_list [] ns' = True"
| "grows_list [n] ns' = (case ns' of [] \<Rightarrow> False | n' # _ \<Rightarrow> grows n n')"
| "grows_list (n # m # ns) ns' = (case ns' of [] \<Rightarrow> False | n' # ms' \<Rightarrow> n' = n \<and> grows_list (m # ns) ms')"

definition root_grows :: "root_node \<Rightarrow> root_node \<Rightarrow> bool" where
  "root_grows r r' \<longleftrightarrow> grows_list (nodes r) (nodes r')"

subsection \<open>New nodes\<close>

lemma wf_get_new_node: "spine_wf (get_new_node b)"
  by (auto simp: get_new_node_def split: option.splits)

lemma not_accept_not_open: "\<not> will_accept n b \<Longrightarrow> \<not> is_open n"
  by (cases n) auto

subsection \<open>Growth\<close>

lemma grows_list_reflI: "(\<And>x. x \<in> set ns \<Longrightarrow> grows x x) \<Longrightarrow> grows_list ns ns"
  by (induction ns rule: induct_list012) auto

lemma grows_refl [simp]: "grows n n"
  by (induction n) (auto intro: grows_list_reflI)

lemma grows_list_refl [simp]: "grows_list ns ns"
  by (rule grows_list_reflI) simp

lemma grows_list_snoc: "grows_list ns (ns @ [x])"
  by (induction ns rule: induct_list012) auto

lemma grows_list_last:
  "ns \<noteq> [] \<Longrightarrow> grows (last ns) x \<Longrightarrow> grows_list ns (butlast ns @ [x])"
  by (induction ns rule: induct_list012) auto

text \<open>One routing step only lets the tree grow: closed nodes are frozen,
  nothing closed reopens, text and textarea content is only extended, and every
  child but the last is kept as it was.\<close>

lemma digest_grows:
  "will_accept n b \<Longrightarrow> digest n b = Some n' \<Longrightarrow> grows n n'"
proof (induction n b arbitrary: n' rule: digest.induct)
  case (1 t ns closed buffer)
  then show ?case
    by (auto simp: grows_list_snoc grows_list_last split: if_splits)
qed auto

lemma root_digest_grows: "root_digest r b = Some r' \<Longrightarrow> root_grows r r'"
  using digest_grows [of "last (nodes r)" b]
  by (auto simp: root_digest_def root_grows_def Let_def grows_list_snoc grows_list_last
      split: if_splits)

lemma grows_list_hd: "grows_list (x # xs) cs \<Longrightarrow> cs \<noteq> [] \<and> grows x (hd cs)"
  by (cases xs) (auto split: list.splits)

lemma grows_trans: "grows a b \<Longrightarrow> grows b c \<Longrightarrow> grows a c"
  and grows_list_trans: "grows_list as bs \<Longrightarrow> grows_list bs cs \<Longrightarrow> grows_list as cs"
proof (induction a b and as bs arbitrary: c and cs rule: grows_grows_list.induct)
  case (1 t ns closed t' ns' closed')
  then show ?case by (cases c) (auto split: if_splits)
next
  case (2 s s')
  then show ?case by (cases c) (auto intro: prefix_order.trans)
next
  case (4 s closed s' closed')
  then show ?case by (cases c) (auto split: if_splits intro: prefix_order.trans)
next
  case (9 n ns')
  then show ?case by (auto split: list.splits dest!: grows_list_hd)
next
  case (10 n m ns ns')
  from "10.prems"(1) obtain ms where ns': "ns' = n # ms" and g: "grows_list (m # ns) ms"
    by (cases ns') auto
  from grows_list_hd [OF g] obtain y ys where ms: "ms = y # ys" by (cases ms) auto
  with "10.prems"(2) ns' obtain cs' where cs: "cs = n # cs'" and g': "grows_list ms cs'"
    by (cases cs) auto
  from "10.IH" [of n ms cs'] ns' g g' have "grows_list (m # ns) cs'" by simp
  with cs show ?case by simp
qed (auto elim: grows.elims)
lemma root_grows_trans: "root_grows a b \<Longrightarrow> root_grows b c \<Longrightarrow> root_grows a c"
  unfolding root_grows_def by (rule grows_list_trans)

lemma parse_steps_grows:
  "parse_steps root buffer html = Some (root', buffer') \<Longrightarrow> root_grows root root'"
proof (induction html arbitrary: root buffer)
  case Nil
  then show ?case by (simp add: root_grows_def)
next
  case (Cons letter html)
  then show ?case
    by (auto split: if_splits option.splits intro: root_grows_trans root_digest_grows)
qed

text \<open>C4: streaming monotonicity: the tree parsed from a prefix of the input
  grows into the tree parsed from the whole input.  Every node closed after the
  prefix is frozen for any continuation, and no node ever reopens.\<close>

theorem parse_html_prefix_grows:
  assumes "parse_html s = Some root" and "parse_html (s @ t) = Some root'"
  shows "root_grows root root'"
proof -
  from assms(1) obtain b where s: "parse_steps new_root [] s = Some (root, b)"
    by (auto simp: parse_html_def parse_loop_steps)
  with assms(2) obtain r2 b2 where "parse_steps root b t = Some (r2, b2)" and "root' = r2"
    by (auto simp: parse_html_def parse_loop_steps parse_steps_append split: option.splits)
  then show ?thesis by (auto intro: parse_steps_grows)
qed

theorem parse_html_prefix_grows_witness:
  "parse_html ''<p>a</p>'' = Some \<lparr>nodes = [HTMLNode ''p'' [TextNode ''a''] True]\<rparr> \<and>
   parse_html (''<p>a</p>'' @ ''<b>x<'') =
     Some \<lparr>nodes = [HTMLNode ''p'' [TextNode ''a''] True, HTMLNode ''b'' [TextNode ''x''] False]\<rparr> \<and>
   root_grows \<lparr>nodes = [HTMLNode ''p'' [TextNode ''a''] True]\<rparr>
     \<lparr>nodes = [HTMLNode ''p'' [TextNode ''a''] True, HTMLNode ''b'' [TextNode ''x''] False]\<rparr>"
proof -
  have p1: "parse_html ''<p>a</p>'' = Some \<lparr>nodes = [HTMLNode ''p'' [TextNode ''a''] True]\<rparr>"
    by (simp add: parse_eval)
  have p2: "parse_html (''<p>a</p>'' @ ''<b>x<'') =
     Some \<lparr>nodes = [HTMLNode ''p'' [TextNode ''a''] True, HTMLNode ''b'' [TextNode ''x''] False]\<rparr>"
    by (simp add: parse_eval)
  show ?thesis using parse_html_prefix_grows [OF p1 p2] p1 p2 by simp
qed

subsection \<open>The right spine\<close>

lemma digest_wf:
  "spine_wf n \<Longrightarrow> will_accept n b \<Longrightarrow> digest n b = Some n' \<Longrightarrow> spine_wf n'"
proof (induction n b arbitrary: n' rule: digest.induct)
  case (1 t ns closed buffer)
  have spine: "\<forall>x \<in> set ns. \<not> is_open x" if "ns = [] \<or> \<not> will_accept (last ns) buffer"
    using that "1.prems"(1) not_accept_not_open [of "last ns" buffer]
    by (cases ns rule: rev_cases) auto
  show ?case
  proof (cases "ns \<noteq> [] \<and> will_accept (last ns) buffer")
    case True
    with "1.prems" obtain x' where d: "digest (last ns) buffer = Some x'"
      and n': "n' = HTMLNode t (butlast ns @ [x']) closed" by auto
    from True "1.prems"(1) have "spine_wf (last ns)" by simp
    with True d "1.IH" have "spine_wf x'" by blast
    with "1.prems"(1,2) n' show ?thesis
      by (auto dest: in_set_butlastD)
  next
    case False
    with "1.prems" spine wf_get_new_node [of buffer] show ?thesis
      by (auto split: if_splits)
  qed
qed auto

lemma root_digest_wf: "root_wf r \<Longrightarrow> root_digest r b = Some r' \<Longrightarrow> root_wf r'"
proof -
  assume spine_wf: "root_wf r" and d: "root_digest r b = Some r'"
  let ?ns = "nodes r"
  show "root_wf r'"
  proof (cases "?ns \<noteq> [] \<and> will_accept (last ?ns) b")
    case True
    with d obtain x' where dx: "digest (last ?ns) b = Some x'"
      and r': "nodes r' = butlast ?ns @ [x']"
      by (auto simp: root_digest_def Let_def)
    from True spine_wf have "spine_wf (last ?ns)" by (simp add: root_wf_def)
    with True dx have "spine_wf x'" by (blast intro: digest_wf)
    with spine_wf r' show ?thesis by (auto simp: root_wf_def dest: in_set_butlastD)
  next
    case False
    with d have r': "nodes r' = ?ns @ [get_new_node b]" by (auto simp: root_digest_def Let_def)
    from False spine_wf have "\<forall>x \<in> set ?ns. \<not> is_open x"
      using not_accept_not_open [of "last ?ns" b]
      by (cases "?ns" rule: rev_cases) (auto simp: root_wf_def)
    with spine_wf r' wf_get_new_node [of b] show ?thesis by (auto simp: root_wf_def)
  qed
qed

lemma parse_loop_wf:
  "root_wf root \<Longrightarrow> parse_loop root buffer html = Some root' \<Longrightarrow> root_wf root'"
proof (induction html arbitrary: root buffer)
  case (Cons letter html)
  then show ?case
    by (auto split: if_splits option.splits intro: root_digest_wf)
qed simp

text \<open>C3: every tree the parser builds has the right-spine shape.\<close>

theorem parse_html_wf: "parse_html html = Some root \<Longrightarrow> root_wf root"
  unfolding parse_html_def
  by (rule parse_loop_wf) (simp_all add: root_wf_def new_root_def)

theorem parse_html_wf_witness:
  "parse_html ''<div><p>a</p><br>'' =
     Some \<lparr>nodes = [HTMLNode ''div'' [HTMLNode ''p'' [TextNode ''a''] True, VoidHTMLNode ''br''] False]\<rparr> \<and>
   root_wf \<lparr>nodes = [HTMLNode ''div'' [HTMLNode ''p'' [TextNode ''a''] True, VoidHTMLNode ''br''] False]\<rparr>"
proof -
  have p: "parse_html ''<div><p>a</p><br>'' =
     Some \<lparr>nodes = [HTMLNode ''div'' [HTMLNode ''p'' [TextNode ''a''] True, VoidHTMLNode ''br''] False]\<rparr>"
    by (simp add: parse_eval)
  then show ?thesis using parse_html_wf [OF p] by simp
qed

end
