(* ===== verification/Text_Extraction.thy ===== *)
theory Text_Extraction
  imports Html_Nodes
begin

text \<open>
  What \<open>get_text\<close> (\<open>src/html_parser/parser.py\<close>) computes, stated without the
  nesting: the rendered text of a tree is its visible leaves (text nodes, and the
  part of each textarea before its closing tag), non-empty ones only, in document
  order, joined by single newlines.  Leaves under an invisible element, comments,
  void elements and doctypes contribute nothing, and no blank line ever appears.
\<close>

fun visible_leaves :: "node \<Rightarrow> pystr list" where
  "visible_leaves (HTMLNode t ns _) = (if is_visible t then concat (map visible_leaves ns) else [])"
| "visible_leaves (TextNode content) = filter_none [content]"
| "visible_leaves (TextareaNode content _) = filter_none [split_first content ''</textarea'']"
| "visible_leaves (VoidHTMLNode _) = []"
| "visible_leaves (CommentNode _) = []"
| "visible_leaves DoctypeNode = []"

definition root_visible_leaves :: "root_node \<Rightarrow> pystr list" where
  "root_visible_leaves r = concat (map visible_leaves (nodes r))"

lemma visible_leaves_nonempty: "\<forall>s \<in> set (visible_leaves n). s \<noteq> []"
  by (induction n rule: visible_leaves.induct) auto

lemma join_visible_leaves_map:
  assumes "\<forall>n \<in> set ns. get_text n = py_join ''\<newline>'' (visible_leaves n)"
  shows "py_join ''\<newline>'' (filter_none (map get_text ns)) = py_join ''\<newline>'' (concat (map visible_leaves ns))"
proof -
  from assms have "map get_text ns = map (py_join ''\<newline>'') (map visible_leaves ns)"
    by simp
  then have "py_join ''\<newline>'' (filter_none (map get_text ns))
      = py_join ''\<newline>'' (filter_none (map (py_join ''\<newline>'') (map visible_leaves ns)))"
    by (simp only:)
  also have "\<dots> = py_join ''\<newline>'' (concat (map visible_leaves ns))"
    by (rule py_join_filter_concat) (auto simp: visible_leaves_nonempty)
  finally show ?thesis .
qed

lemma get_text_visible_leaves: "get_text n = py_join ''\<newline>'' (visible_leaves n)"
proof (induction n rule: get_text.induct)
  case (1 t ns closed)
  show ?case
  proof (cases "is_visible t")
    case True
    with "1.IH" have "\<forall>n \<in> set ns. get_text n = py_join ''\<newline>'' (visible_leaves n)"
      by blast
    with True show ?thesis by (simp add: join_visible_leaves_map)
  next
    case False
    then show ?thesis by simp
  qed
qed auto

lemma root_get_text_join: "root_get_text r = py_join ''\<newline>'' (concat (map visible_leaves (nodes r)))"
  unfolding root_get_text_def
  by (rule join_visible_leaves_map) (simp add: get_text_visible_leaves)

text \<open>C2: the root's text is the join of its visible leaves.\<close>

theorem root_get_text_flat: "root_get_text r = py_join ''\<newline>'' (root_visible_leaves r)"
  by (simp add: root_get_text_join root_visible_leaves_def)

end
