(* ===== verification/Wellformed.thy ===== *)
theory Wellformed
  imports Tokenizer Text_Extraction
begin

text \<open>
  Well-formed markup and what the parser makes of it.  A document is a
  \<open>doc\<close>: an element with a name and children, or a text.  \<open>frags\<close> prints
  it as HTML fragments (\<open><t>\<close>, the children, \<open></t>\<close>) and
  \<open>render_docs\<close> concatenates them.  \<open>docs_wf\<close> asks for what well-formed
  markup has and the parser relies on:
  \<^item> names of ASCII letters and digits that are not void and do not start
    with \<open>textarea\<close>;
  \<^item> texts without \<open><\<close> or \<open>>\<close> that are not blank;
  \<^item> no two adjacent texts;
  \<^item> no text at the very end, which the loop would leave in its buffer.
  The proof has two layers.
  \<^item> The loop (\<open>parse_steps_frags\<close>) delivers such a fragment list unchanged
    to the root.
  \<^item> The routing (\<open>root_digest_wrap\<close>) always reaches the innermost open
    element.  The tree is \<open>wrap ctx cs\<close>, a chain of open elements
    \<open>ctx\<close> around the children \<open>cs\<close> of the innermost one.  An opening tag
    pushes a frame, a text appends a node, and the matching closing tag pops
    the frame as a closed element.
\<close>

datatype doc = Elem pystr "doc list" | Text pystr

fun to_node :: "doc \<Rightarrow> node" where
  "to_node (Elem t ds) = HTMLNode t (map to_node ds) True"
| "to_node (Text s) = TextNode s"

fun frags :: "doc \<Rightarrow> pystr list" where
  "frags (Elem t ds) = (''<'' @ t @ ''>'') # concat (map frags ds) @ [''</'' @ t @ ''>'']"
| "frags (Text s) = [s]"

definition render_docs :: "doc list \<Rightarrow> pystr" where
  "render_docs ds = concat (concat (map frags ds))"

fun is_text :: "doc \<Rightarrow> bool" where
  "is_text (Text _) = True"
| "is_text (Elem _ _) = False"

fun no_adjacent_text :: "doc list \<Rightarrow> bool" where
  "no_adjacent_text (a # b # r) = (\<not> (is_text a \<and> is_text b) \<and> no_adjacent_text (b # r))"
| "no_adjacent_text _ = True"

definition tag_name_ok :: "pystr \<Rightarrow> bool" where
  "tag_name_ok t \<longleftrightarrow>
     t \<noteq> [] \<and> list_all is_ascii_alnum t \<and> t \<notin> set VOID_TYPES \<and> \<not> prefix ''textarea'' t"

definition text_ok :: "pystr \<Rightarrow> bool" where
  "text_ok s \<longleftrightarrow> py_strip s \<noteq> [] \<and> CHR ''<'' \<notin> set s \<and> CHR ''>'' \<notin> set s"

fun doc_wf :: "doc \<Rightarrow> bool" where
  "doc_wf (Elem t ds) = (tag_name_ok t \<and> no_adjacent_text ds \<and> (\<forall>d \<in> set ds. doc_wf d))"
| "doc_wf (Text s) = text_ok s"

definition docs_wf :: "doc list \<Rightarrow> bool" where
  "docs_wf ds \<longleftrightarrow> no_adjacent_text ds \<and> (\<forall>d \<in> set ds. doc_wf d) \<and> (ds = [] \<or> \<not> is_text (last ds))"

text \<open>The visible text of a document: its texts outside the invisible
  elements, in order.\<close>

fun doc_leaves :: "doc \<Rightarrow> pystr list" where
  "doc_leaves (Elem t ds) = (if is_visible t then concat (map doc_leaves ds) else [])"
| "doc_leaves (Text s) = [s]"

text \<open>Fragments: a tag is \<open><\<close>, a body without \<open><\<close> or \<open>>\<close>, and
  \<open>>\<close>; \<open>frags_ok\<close> says every fragment is a tag or a valid text, and every
  text is followed by a tag.\<close>

definition tag_frag :: "pystr \<Rightarrow> bool" where
  "tag_frag f \<longleftrightarrow>
     (case f of
        c # x \<Rightarrow> c = CHR ''<'' \<and> x \<noteq> [] \<and> last x = CHR ''>'' \<and>
                 CHR ''<'' \<notin> set (butlast x) \<and> CHR ''>'' \<notin> set (butlast x)
      | [] \<Rightarrow> False)"

fun frags_ok :: "pystr list \<Rightarrow> bool" where
  "frags_ok [] = True"
| "frags_ok (f # fs) =
     (if tag_frag f then frags_ok fs
      else text_ok f \<and> fs \<noteq> [] \<and> tag_frag (hd fs) \<and> frags_ok fs)"

text \<open>A tree whose open elements form a chain from the root: \<open>wrap ctx cs\<close>
  is the root's list of children when \<open>cs\<close> are the children of the innermost
  open element, and each frame \<open>(t, ns)\<close> of \<open>ctx\<close>, innermost first, is an
  open element \<open>t\<close> preceded by its closed siblings \<open>ns\<close>.  With
  \<open>ctx = []\<close>, \<open>cs\<close> is the root's own list.\<close>

fun wrap :: "(pystr \<times> node list) list \<Rightarrow> node list \<Rightarrow> node list" where
  "wrap [] cs = cs"
| "wrap ((t, ns) # ctx) cs = wrap ctx (ns @ [HTMLNode t cs False])"

fun settled :: "node \<Rightarrow> bool" where
  "settled (TextNode _) = True"
| "settled (HTMLNode _ _ closed) = closed"
| "settled _ = False"

text \<open>The innermost open element's last child does not take the fragment, and
  the fragment does not close the innermost open element.\<close>

definition no_accept :: "node list \<Rightarrow> pystr \<Rightarrow> bool" where
  "no_accept cs f \<longleftrightarrow> cs = [] \<or> \<not> will_accept (last cs) f"

definition not_closing :: "(pystr \<times> node list) list \<Rightarrow> pystr \<Rightarrow> bool" where
  "not_closing ctx f \<longleftrightarrow> (case ctx of [] \<Rightarrow> True | (t, _) # _ \<Rightarrow> \<not> startswith f (''</'' @ t))"

subsection \<open>The loop on well-formed fragments\<close>

lemma parse_steps_text:
  "CHR ''<'' \<notin> set s \<Longrightarrow> CHR ''>'' \<notin> set s \<Longrightarrow>
   parse_steps root buf (s @ rest) = parse_steps root (buf @ s) rest"
  by (induction s arbitrary: buf) auto

lemma tag_frag_iff:
  "tag_frag f \<longleftrightarrow> (\<exists>b. f = CHR ''<'' # b @ [CHR ''>''] \<and> CHR ''<'' \<notin> set b \<and> CHR ''>'' \<notin> set b)"
proof
  assume "tag_frag f"
  then obtain x where "f = CHR ''<'' # x" "x \<noteq> []" "last x = CHR ''>''"
      "CHR ''<'' \<notin> set (butlast x)" "CHR ''>'' \<notin> set (butlast x)"
    by (auto simp: tag_frag_def split: list.splits)
  then show "\<exists>b. f = CHR ''<'' # b @ [CHR ''>''] \<and> CHR ''<'' \<notin> set b \<and> CHR ''>'' \<notin> set b"
    by (metis append_butlast_last_id)
qed (auto simp: tag_frag_def)

lemma parse_steps_tag:
  assumes "tag_frag f"
  shows "parse_steps root buf (f @ rest) =
    (case (if py_strip buf \<noteq> [] then root_digest root buf else Some root) of
       None \<Rightarrow> None
     | Some r \<Rightarrow> (case root_digest r f of None \<Rightarrow> None | Some r' \<Rightarrow> parse_steps r' [] rest))"
proof -
  obtain x where f: "f = CHR ''<'' # x @ [CHR ''>'']" and x: "CHR ''<'' \<notin> set x" "CHR ''>'' \<notin> set x"
    using assms by (auto simp: tag_frag_iff)
  have "parse_steps r ''<'' (x @ CHR ''>'' # rest) =
      (case root_digest r f of None \<Rightarrow> None | Some r' \<Rightarrow> parse_steps r' [] rest)" for r
    using x by (simp add: parse_steps_text f)
  then show ?thesis by (simp add: f split: option.split)
qed

lemma parse_steps_frags:
  "frags_ok fs \<Longrightarrow> parse_steps root [] (concat fs) = map_option (\<lambda>r. (r, [])) (digest_all root fs)"
proof (induction fs arbitrary: root rule: induct_list012)
  case 1
  then show ?case by simp
next
  case (2 f)
  then have "tag_frag f" by (auto split: if_splits)
  then show ?case
    using parse_steps_tag [of f root "[]" "[]"] by (simp add: py_strip_def split: option.split)
next
  case (3 f g fs)
  show ?case
  proof (cases "tag_frag f")
    case True
    with "3.prems" have "frags_ok (g # fs)" by simp
    with True "3.IH"(2) show ?thesis
      using parse_steps_tag [of f root "[]" "concat (g # fs)"]
      by (simp add: py_strip_def split: option.split)
  next
    case False
    with "3.prems" have t: "text_ok f" "tag_frag g" "frags_ok fs" by auto
    then have "parse_steps root [] (concat (f # g # fs)) = parse_steps root f (g @ concat fs)"
      by (simp add: parse_steps_text text_ok_def)
    also have "\<dots> = map_option (\<lambda>r. (r, [])) (digest_all root (f # g # fs))"
      using t "3.IH"(1) parse_steps_tag [of g root f "concat fs"]
      by (simp add: text_ok_def split: option.split)
    finally show ?thesis .
  qed
qed

subsection \<open>Well-formed documents give well-formed fragments\<close>

lemma alnum_not_markup:
  "is_ascii_alnum c \<Longrightarrow> c \<noteq> CHR ''<'' \<and> c \<noteq> CHR ''>'' \<and> c \<noteq> CHR ''/''"
  by (auto simp: is_ascii_alnum_def)

lemma tag_frags_of_name:
  assumes "tag_name_ok t"
  shows "tag_frag (''<'' @ t @ ''>'')" and "tag_frag (''</'' @ t @ ''>'')"
proof -
  have "CHR ''<'' \<notin> set t" "CHR ''>'' \<notin> set t"
    using assms alnum_not_markup by (auto simp: tag_name_ok_def list_all_iff)
  then show "tag_frag (''<'' @ t @ ''>'')" "tag_frag (''</'' @ t @ ''>'')"
    using tag_frag_iff [of "''<'' @ t @ ''>''"] tag_frag_iff [of "''</'' @ t @ ''>''"] by auto
qed

lemmas tag_frags_of_name' = tag_frags_of_name [simplified]

lemma frags_ok_append: "frags_ok xs \<Longrightarrow> frags_ok ys \<Longrightarrow> frags_ok (xs @ ys)"
  by (induction xs) (auto split: if_splits)

lemma frags_ok_docs:
  assumes "\<And>d rest. d \<in> set ds \<Longrightarrow> \<not> is_text d \<Longrightarrow> frags_ok rest \<Longrightarrow> frags_ok (frags d @ rest)"
    and "no_adjacent_text ds" and "\<forall>d \<in> set ds. doc_wf d" and "frags_ok rest"
    and "ds = [] \<or> \<not> is_text (last ds) \<or> (rest \<noteq> [] \<and> tag_frag (hd rest))"
  shows "frags_ok (concat (map frags ds) @ rest)"
  using assms
proof (induction ds rule: induct_list012)
  case (2 d)
  then show ?case by (cases d) auto
next
  case (3 d1 d2 ds)
  then have Y: "frags_ok (concat (map frags (d2 # ds)) @ rest)" by auto
  show ?case
  proof (cases d1)
    case (Text s)
    with "3.prems" obtain t cs where d2: "d2 = Elem t cs" and "text_ok s"
      by (cases d2) auto
    with "3.prems" have "tag_name_ok t" by simp
    with Y Text d2 \<open>text_ok s\<close> show ?thesis
      by (simp add: tag_frags_of_name')
  next
    case (Elem t cs)
    have "frags_ok (frags d1 @ (concat (map frags (d2 # ds)) @ rest))"
      using Y by - (rule "3.prems"(1), simp_all add: Elem del: frags.simps)
    then show ?thesis by (simp del: frags.simps)
  qed
qed simp

lemma frags_ok_doc: "doc_wf d \<Longrightarrow> \<not> is_text d \<Longrightarrow> frags_ok rest \<Longrightarrow> frags_ok (frags d @ rest)"
proof (induction d arbitrary: rest)
  case (Elem t ds)
  then have "frags_ok (concat (map frags ds) @ (''</'' @ t @ ''>'') # rest)"
    by (intro frags_ok_docs) (auto simp: tag_frags_of_name')
  with Elem.prems show ?case by (simp add: tag_frags_of_name')
qed simp

lemma frags_ok_render: "docs_wf ds \<Longrightarrow> frags_ok (concat (map frags ds))"
  using frags_ok_docs [of ds "[]"] frags_ok_doc by (auto simp: docs_wf_def)

subsection \<open>Routing reaches the innermost open element\<close>

text \<open>A fragment that the innermost open element's last accepting descendant
  takes is routed there from the root through the whole chain of open elements,
  and only that node changes.\<close>

lemma root_digest_wrap:
  "will_accept X f \<Longrightarrow> digest X f = Some Y \<Longrightarrow>
   root_digest \<lparr>nodes = wrap ctx (ns @ [X])\<rparr> f = Some \<lparr>nodes = wrap ctx (ns @ [Y])\<rparr>"
proof (induction ctx arbitrary: ns X Y)
  case Nil
  then show ?case by (simp add: root_digest_def)
next
  case (Cons frame ctx)
  obtain t ns' where frame: "frame = (t, ns')" by (cases frame)
  have "digest (HTMLNode t (ns @ [X]) False) f = Some (HTMLNode t (ns @ [Y]) False)"
    using Cons.prems by simp
  then show ?case
    using Cons.IH [of "HTMLNode t (ns @ [X]) False" "HTMLNode t (ns @ [Y]) False" ns'] frame by simp
qed

lemma root_digest_focus_new:
  "no_accept cs f \<Longrightarrow> not_closing ctx f \<Longrightarrow>
   root_digest \<lparr>nodes = wrap ctx cs\<rparr> f = Some \<lparr>nodes = wrap ctx (cs @ [get_new_node f])\<rparr>"
proof (cases ctx)
  case Nil
  then show "no_accept cs f \<Longrightarrow> ?thesis" by (auto simp: root_digest_def no_accept_def)
next
  case (Cons frame ctx')
  obtain t ns where frame: "frame = (t, ns)" by (cases frame)
  assume "no_accept cs f" "not_closing ctx f"
  then have "digest (HTMLNode t cs False) f = Some (HTMLNode t (cs @ [get_new_node f]) False)"
    using Cons frame by (auto simp: no_accept_def not_closing_def)
  then show ?thesis
    using root_digest_wrap [of "HTMLNode t cs False" f _ ctx' ns] Cons frame by simp
qed

lemma root_digest_focus_close:
  "no_accept cs f \<Longrightarrow> startswith f (''</'' @ t) \<Longrightarrow>
   root_digest \<lparr>nodes = wrap ((t, ns) # ctx) cs\<rparr> f = Some \<lparr>nodes = wrap ctx (ns @ [HTMLNode t cs True])\<rparr>"
  using root_digest_wrap [of "HTMLNode t cs False" f "HTMLNode t cs True" ctx ns]
  by (auto simp: no_accept_def)

subsection \<open>The tree a well-formed document builds\<close>

lemma prefix_snoc_not_in: "prefix p (t @ [c]) \<Longrightarrow> c \<notin> set p \<Longrightarrow> prefix p t"
  by (auto simp: prefix_append prefix_Cons)

lemma get_new_node_tag:
  assumes "tag_name_ok t"
  shows "get_new_node (CHR ''<'' # t @ ''>'') = HTMLNode t [] False"
proof -
  from assms obtain c t' where t: "t = c # t'" and c: "is_ascii_alnum c"
    by (cases t) (auto simp: tag_name_ok_def)
  have alnum: "list_all is_ascii_alnum t" and nv: "t \<notin> set VOID_TYPES" and nta: "\<not> prefix ''textarea'' t"
    using assms by (auto simp: tag_name_ok_def)
  have "\<not> is_ascii_alnum CHR ''>''" by (simp add: is_ascii_alnum_def)
  with alnum have "takeWhile is_ascii_alnum (t @ ''>'') = t" "dropWhile is_ascii_alnum (t @ ''>'') = ''>''"
    by (simp_all add: takeWhile_append2 dropWhile_append2 list_all_iff)
  then have "get_node_type (CHR ''<'' # t @ ''>'') = Some t"
    using t by (simp add: get_node_type_def regex_tail_ok_def)
  moreover have "c \<noteq> CHR ''!''" using c by (auto simp: is_ascii_alnum_def)
  moreover have "\<not> prefix ''textarea'' (t @ ''>'')"
    using nta prefix_snoc_not_in [of "''textarea''" t "CHR ''>''"] by auto
  ultimately show ?thesis
    using nv t by (simp add: get_new_node_def)
qed

lemma get_new_node_text: "text_ok s \<Longrightarrow> get_new_node s = TextNode s"
  by (cases s) (auto simp: get_new_node_def text_ok_def py_strip_def)

lemma settled_no_accept_tag: "settled n \<Longrightarrow> startswith f ''<'' \<Longrightarrow> \<not> will_accept n f"
  by (cases n) auto

lemma digest_all_append:
  "digest_all root (xs @ ys) = Option.bind (digest_all root xs) (\<lambda>r. digest_all r ys)"
  by (induction xs arbitrary: root) (auto split: option.split)

lemma settled_to_node: "settled (to_node d)"
  by (cases d) simp_all

lemma frags_hd: "frags d \<noteq> [] \<and> (\<not> is_text d \<longrightarrow> startswith (hd (frags d)) ''<'')"
  by (cases d) simp_all

lemma digest_all_docs:
  assumes "\<And>d ctx cs. d \<in> set ds \<Longrightarrow> list_all settled cs \<Longrightarrow> no_accept cs (hd (frags d)) \<Longrightarrow>
       digest_all \<lparr>nodes = wrap ctx cs\<rparr> (frags d) = Some \<lparr>nodes = wrap ctx (cs @ [to_node d])\<rparr>"
    and "no_adjacent_text ds" and "list_all settled cs"
    and "ds = [] \<or> no_accept cs (hd (frags (hd ds)))"
  shows "digest_all \<lparr>nodes = wrap ctx cs\<rparr> (concat (map frags ds)) = Some \<lparr>nodes = wrap ctx (cs @ map to_node ds)\<rparr>"
  using assms
proof (induction ds arbitrary: cs)
  case (Cons d ds)
  have step: "digest_all \<lparr>nodes = wrap ctx cs\<rparr> (frags d) = Some \<lparr>nodes = wrap ctx (cs @ [to_node d])\<rparr>"
    using Cons.prems by auto
  have "ds = [] \<or> no_accept (cs @ [to_node d]) (hd (frags (hd ds)))"
  proof (cases ds)
    case (Cons d' ds')
    with \<open>no_adjacent_text (d # ds)\<close> have "\<not> is_text d \<or> \<not> is_text d'" by simp
    then show ?thesis
      using Cons frags_hd [of d'] by (cases d) (auto simp: no_accept_def)
  qed simp
  then have "digest_all \<lparr>nodes = wrap ctx (cs @ [to_node d])\<rparr> (concat (map frags ds)) =
      Some \<lparr>nodes = wrap ctx (cs @ [to_node d] @ map to_node ds)\<rparr>"
    using Cons.IH [of "cs @ [to_node d]"] Cons.prems settled_to_node [of d]
    by (cases ds) auto
  with step show ?case by (simp add: digest_all_append)
qed simp

lemma digest_all_doc:
  "doc_wf d \<Longrightarrow> list_all settled cs \<Longrightarrow> no_accept cs (hd (frags d)) \<Longrightarrow>
   digest_all \<lparr>nodes = wrap ctx cs\<rparr> (frags d) = Some \<lparr>nodes = wrap ctx (cs @ [to_node d])\<rparr>"
proof (induction d arbitrary: ctx cs)
  case (Text s)
  then have "not_closing ctx s" "text_ok s"
    by (auto simp: not_closing_def text_ok_def prefix_def split: list.split)
  with Text.prems show ?case
    by (simp add: root_digest_focus_new get_new_node_text)
next
  case (Elem t ds)
  let ?open = "CHR ''<'' # t @ ''>''" and ?close = "CHR ''<'' # CHR ''/'' # t @ ''>''"
  have wf: "tag_name_ok t" "no_adjacent_text ds" "\<forall>d \<in> set ds. doc_wf d"
    using Elem.prems by auto
  obtain c t' where t: "t = c # t'" "is_ascii_alnum c"
    using wf(1) by (cases t) (auto simp: tag_name_ok_def)
  then have "not_closing ctx ?open"
    using alnum_not_markup [of c] by (auto simp: not_closing_def split: list.split)
  then have s1: "root_digest \<lparr>nodes = wrap ctx cs\<rparr> ?open = Some \<lparr>nodes = wrap ((t, cs) # ctx) []\<rparr>"
    using Elem.prems(3) by (simp add: root_digest_focus_new get_new_node_tag wf(1))
  have s2: "digest_all \<lparr>nodes = wrap ((t, cs) # ctx) []\<rparr> (concat (map frags ds)) =
      Some \<lparr>nodes = wrap ((t, cs) # ctx) (map to_node ds)\<rparr>"
    using digest_all_docs [of ds "[]" "(t, cs) # ctx"] Elem.IH wf by (simp add: no_accept_def)
  have "no_accept (map to_node ds) ?close"
    using settled_to_node settled_no_accept_tag by (auto simp: no_accept_def last_map)
  then have s3: "root_digest \<lparr>nodes = wrap ((t, cs) # ctx) (map to_node ds)\<rparr> ?close =
      Some \<lparr>nodes = wrap ctx (cs @ [HTMLNode t (map to_node ds) True])\<rparr>"
    by (rule root_digest_focus_close) simp
  from s1 s2 s3 show ?case by (simp add: digest_all_append)
qed

lemma digest_all_render:
  "docs_wf ds \<Longrightarrow> digest_all new_root (concat (map frags ds)) = Some \<lparr>nodes = map to_node ds\<rparr>"
  using digest_all_docs [of ds "[]" "[]"] digest_all_doc
  by (auto simp: docs_wf_def no_accept_def new_root_def)

text \<open>C17: for well-formed markup the parser is exact: parsing the HTML text
  of a list of documents, each element a tag pair around its content and no two
  texts adjacent, gives exactly one closed element per element and one text
  node per text, nested as in the document.\<close>

theorem parse_html_render:
  "docs_wf ds \<Longrightarrow> parse_html (render_docs ds) = Some \<lparr>nodes = map to_node ds\<rparr>"
  by (simp add: parse_html_def parse_loop_steps parse_steps_frags frags_ok_render render_docs_def
      digest_all_render)

theorem parse_html_render_witness:
  "docs_wf [Elem ''html'' [Elem ''head'' [Elem ''title'' [Text ''T'']], Elem ''body'' [Text ''Hi '', Elem ''b'' [Text ''there'']]]] \<and>
   parse_html ''<html><head><title>T</title></head><body>Hi <b>there</b></body></html>'' =
     Some \<lparr>nodes = [HTMLNode ''html'' [HTMLNode ''head'' [HTMLNode ''title'' [TextNode ''T''] True] True,
       HTMLNode ''body'' [TextNode ''Hi '', HTMLNode ''b'' [TextNode ''there''] True] True] True]\<rparr>"
proof -
  let ?ds = "[Elem ''html'' [Elem ''head'' [Elem ''title'' [Text ''T'']], Elem ''body'' [Text ''Hi '', Elem ''b'' [Text ''there'']]]]"
  have wf: "docs_wf ?ds"
    by (simp add: docs_wf_def tag_name_ok_def text_ok_def VOID_TYPES_def py_eval)
  have "render_docs ?ds = ''<html><head><title>T</title></head><body>Hi <b>there</b></body></html>''"
    by (simp add: render_docs_def)
  with parse_html_render [OF wf] wf show ?thesis by simp
qed

lemma visible_leaves_to_node: "doc_wf d \<Longrightarrow> visible_leaves (to_node d) = doc_leaves d"
proof (induction d)
  case (Elem t ds)
  then show ?case by (simp cong: map_cong)
qed (auto simp: text_ok_def py_strip_def)

text \<open>C18: for well-formed markup the rendered text is the newline join of the
  document's texts outside the invisible elements, in order.\<close>

theorem rendered_text_docs:
  "docs_wf ds \<Longrightarrow>
   map_option root_get_text (parse_html (render_docs ds)) = Some (py_join ''\<newline>'' (concat (map doc_leaves ds)))"
proof -
  assume wf: "docs_wf ds"
  then have "parse_html (render_docs ds) = Some \<lparr>nodes = map to_node ds\<rparr>"
    by (simp add: parse_html_def parse_loop_steps parse_steps_frags frags_ok_render render_docs_def
        digest_all_render)
  moreover have "\<forall>d \<in> set ds. visible_leaves (to_node d) = doc_leaves d"
    using wf visible_leaves_to_node by (auto simp: docs_wf_def)
  ultimately show ?thesis by (simp add: root_get_text_join cong: map_cong)
qed

theorem rendered_text_docs_witness:
  "docs_wf [Elem ''html'' [Elem ''head'' [Elem ''title'' [Text ''T'']], Elem ''body'' [Text ''Hi '', Elem ''b'' [Text ''there'']]]] \<and>
   map_option root_get_text (parse_html ''<html><head><title>T</title></head><body>Hi <b>there</b></body></html>'') =
     Some ''Hi \<newline>there''"
proof -
  let ?ds = "[Elem ''html'' [Elem ''head'' [Elem ''title'' [Text ''T'']], Elem ''body'' [Text ''Hi '', Elem ''b'' [Text ''there'']]]]"
  have wf: "docs_wf ?ds"
    by (simp add: docs_wf_def tag_name_ok_def text_ok_def VOID_TYPES_def py_eval)
  have "render_docs ?ds = ''<html><head><title>T</title></head><body>Hi <b>there</b></body></html>''"
    by (simp add: render_docs_def)
  with rendered_text_docs [OF wf] wf show ?thesis
    by (simp add: is_visible_def INVISIBLE_TYPES_def)
qed

subsection \<open>Closing tags are matched against the innermost open element only\<close>

lemma get_new_node_closing: "get_new_node (''</'' @ u) = TextNode (''</'' @ u)"
  by (simp add: get_new_node_def get_node_type_def is_ascii_alnum_def)

text \<open>C28: a closing tag is compared with the innermost open element only.  When
  it does not close that element, it becomes a text child of it, whatever open
  element further out it names: that element stays open.\<close>

theorem closing_tag_innermost_only:
  assumes "list_all settled cs" and "\<not> startswith (''</'' @ u) (''</'' @ t)"
  shows "root_digest \<lparr>nodes = wrap ((t, ns) # ctx) cs\<rparr> (''</'' @ u) =
    Some \<lparr>nodes = wrap ((t, ns) # ctx) (cs @ [TextNode (''</'' @ u)])\<rparr>"
proof -
  have "no_accept cs (''</'' @ u)"
    using assms(1) settled_no_accept_tag by (auto simp: no_accept_def list_all_iff)
  moreover have "not_closing ((t, ns) # ctx) (''</'' @ u)"
    using assms(2) by (simp add: not_closing_def)
  ultimately show ?thesis
    using root_digest_focus_new get_new_node_closing by metis
qed

theorem closing_tag_innermost_only_witness:
  "list_all settled [TextNode ''x''] \<and> \<not> startswith (''</'' @ ''div>'') (''</'' @ ''span'') \<and>
   root_digest \<lparr>nodes = [HTMLNode ''div'' [HTMLNode ''span'' [TextNode ''x''] False] False]\<rparr> ''</div>'' =
     Some \<lparr>nodes = [HTMLNode ''div'' [HTMLNode ''span'' [TextNode ''x'', TextNode ''</div>''] False] False]\<rparr>"
proof -
  have s: "list_all settled [TextNode ''x'']" by simp
  have n: "\<not> startswith (''</'' @ ''div>'') (''</'' @ ''span'')" by simp
  show ?thesis
    using closing_tag_innermost_only [OF s n, of "[]" "[(''div'', [])]"] s n by simp
qed


subsection \<open>A closing tag is a prefix test\<close>

text \<open>C21: an open element closes on every fragment that starts with \<open></\<close> and
  its name, whatever follows: \<open></pre>\<close> closes an open \<open>p\<close>, and
  \<open></divider>\<close> an open \<open>div\<close>.\<close>

theorem closing_tag_prefix_match:
  assumes "list_all settled cs"
  shows "root_digest \<lparr>nodes = wrap ((t, ns) # ctx) cs\<rparr> (''</'' @ t @ s) =
           Some \<lparr>nodes = wrap ctx (ns @ [HTMLNode t cs True])\<rparr>"
proof -
  have "no_accept cs (''</'' @ t @ s)"
    using assms settled_no_accept_tag by (auto simp: no_accept_def list_all_iff)
  then show ?thesis using root_digest_focus_close [of cs "''</'' @ t @ s" t ns ctx] by simp
qed

theorem closing_tag_prefix_match_witness:
  "list_all settled [TextNode ''a''] \<and>
   root_digest \<lparr>nodes = [HTMLNode ''p'' [TextNode ''a''] False]\<rparr> (''</'' @ ''p'' @ ''re>'') =
     Some \<lparr>nodes = [HTMLNode ''p'' [TextNode ''a''] True]\<rparr>"
  using closing_tag_prefix_match [of "[TextNode ''a'']" "''p''" "[]" "[]" "''re>''"] by simp

subsection \<open>Text after the last tag is dropped\<close>

text \<open>C22: text after the last \<open><\<close> or \<open>>\<close> of the input only fills the
  buffer, which is never flushed: appending text without \<open><\<close> and \<open>>\<close>
  does not change the parse.\<close>

theorem trailing_text_dropped:
  assumes "CHR ''<'' \<notin> set s" "CHR ''>'' \<notin> set s"
  shows "parse_html (html @ s) = parse_html html"
proof -
  have "parse_steps r b s = Some (r, b @ s)" for r b
    using parse_steps_text [OF assms, of r b "[]"] by simp
  then show ?thesis
    by (auto simp: parse_html_def parse_loop_steps parse_steps_append split: option.splits)
qed

theorem trailing_text_dropped_witness:
  "CHR ''<'' \<notin> set ''tail'' \<and> CHR ''>'' \<notin> set ''tail'' \<and>
   parse_html (''<p>a</p>'' @ ''tail'') = parse_html ''<p>a</p>''"
  using trailing_text_dropped [of "''tail''" "''<p>a</p>''"] by simp

end
