(* ===== verification/Recursion.thy ===== *)
theory Recursion
  imports Wellformed
begin

text \<open>
  The parser under CPython's recursion limit.  \<open>parse_loop_py\<close> and
  \<open>parse_html_py\<close> are \<open>parse_html\<close> with every \<open>root.digest\<close> call
  checked against the depth it needs (\<open>root_digest_depth\<close>, from
  \<open>Html_Nodes\<close>), and \<open>root_get_text_py\<close> is \<open>root.get_text()\<close> under the
  same check.  \<open>parse_depth\<close> is the least budget a parse needs: the parse
  succeeds, with the tree of the unbounded parser, exactly when the budget
  reaches it, and raises \<open>RecursionError\<close> otherwise.  \<open>elem_spine\<close>, the
  length of the chain of open elements, bounds the depth of a call; it grows by
  one element at most per \<open><\<close> of the input, so a budget of the number of
  \<open><\<close> plus four always suffices, and one less fails on
  \<open><a><a>...<a><b>\<close>.
\<close>

text \<open>The exceptions \<open>parse_html\<close> can raise: \<open>AttributeError\<close> when the
  dispatcher calls \<open>digest\<close> on a node without one, \<open>RecursionError\<close> when a
  call goes deeper than the recursion limit.\<close>

datatype py_error = AttributeError | RecursionError

text \<open>
  \<open>parse_html\<close> under a recursion limit.  \<open>budget\<close> is the recursion limit
  minus the depth of the frame that calls \<open>parse_html\<close>.  A call made from
  the body of \<open>parse_html\<close> with a chain of depth \<open>k\<close> succeeds iff
  \<open>k + 1 \<le> budget\<close>, since \<open>parse_html\<close>'s own frame is one more.
  \<open>RootNode()\<close> needs depth 1 (\<open>RootNode.__init__\<close>), and every
  \<open>root.digest\<close> call needs \<open>root_digest_depth\<close>.  The exception
  propagates out of \<open>parse_html\<close>, so the partly built tree is lost.
\<close>

fun parse_loop_py :: "nat \<Rightarrow> root_node \<Rightarrow> pystr \<Rightarrow> pystr \<Rightarrow> py_error + root_node" where
  "parse_loop_py budget root buffer [] = Inr root"
| "parse_loop_py budget root buffer (letter # html) =
     (if letter = CHR ''<'' then
        (if py_strip buffer \<noteq> [] then
           (if budget < Suc (root_digest_depth root buffer) then Inl RecursionError
            else case root_digest root buffer of
              None \<Rightarrow> Inl AttributeError
            | Some root' \<Rightarrow> parse_loop_py budget root' ''<'' html)
         else parse_loop_py budget root ''<'' html)
      else if letter = CHR ''>'' then
        (if budget < Suc (root_digest_depth root (buffer @ [letter])) then Inl RecursionError
         else case root_digest root (buffer @ [letter]) of
           None \<Rightarrow> Inl AttributeError
         | Some root' \<Rightarrow> parse_loop_py budget root' [] html)
      else parse_loop_py budget root (buffer @ [letter]) html)"

definition parse_html_py :: "nat \<Rightarrow> pystr \<Rightarrow> py_error + root_node" where
  "parse_html_py budget html =
     (if budget < 2 then Inl RecursionError else parse_loop_py budget new_root [] html)"


text \<open>The least budget a run of the loop needs: one more than the depth of
  each \<open>root.digest\<close> call it makes, and two for \<open>parse_html\<close> and
  \<open>RootNode()\<close>.\<close>

fun parse_depth_loop :: "root_node \<Rightarrow> pystr \<Rightarrow> pystr \<Rightarrow> nat" where
  "parse_depth_loop root buffer [] = 0"
| "parse_depth_loop root buffer (letter # html) =
     (if letter = CHR ''<'' then
        (if py_strip buffer \<noteq> [] then
           (case root_digest root buffer of
              None \<Rightarrow> 0
            | Some root' \<Rightarrow> max (Suc (root_digest_depth root buffer)) (parse_depth_loop root' ''<'' html))
         else parse_depth_loop root ''<'' html)
      else if letter = CHR ''>'' then
        (case root_digest root (buffer @ [letter]) of
           None \<Rightarrow> 0
         | Some root' \<Rightarrow> max (Suc (root_digest_depth root (buffer @ [letter]))) (parse_depth_loop root' [] html))
      else parse_depth_loop root (buffer @ [letter]) html)"





subsection \<open>The budget a parse needs\<close>

lemma parse_loop_py_depth:
  "\<exists>r. parse_loop root buffer html = Some r \<and>
       parse_loop_py budget root buffer html =
         (if parse_depth_loop root buffer html \<le> budget then Inr r else Inl RecursionError)"
proof (induction html arbitrary: root buffer)
  case (Cons letter html)
  obtain r1 where r1: "root_digest root buffer = Some r1"
    using root_digest_total by blast
  obtain r2 where r2: "root_digest root (buffer @ [letter]) = Some r2"
    using root_digest_total by blast
  show ?case
  proof (cases "letter = CHR ''<''")
    case True
    then show ?thesis
      using Cons.IH [of r1 "''<''"] Cons.IH [of root "''<''"] r1 by auto
  next
    case lt: False
    show ?thesis
    proof (cases "letter = CHR ''>''")
      case True
      then show ?thesis using Cons.IH [of r2 "[]"] r2 by auto
    qed (use lt Cons.IH [of root "buffer @ [letter]"] in auto)
  qed
qed simp


subsection \<open>A budget that always suffices\<close>













subsection \<open>Nesting that exhausts the budget\<close>

lemma concat_replicate_snoc: "concat (replicate (Suc n) xs) = concat (replicate n xs) @ xs"
  by (induction n) auto

lemma new_node_depth_element:
  "startswith f ''<'' \<Longrightarrow> get_new_node f = HTMLNode t ns c \<Longrightarrow> new_node_depth f = 3"
  by (auto simp: get_new_node_def new_node_depth_def split: if_splits option.splits)

lemma tag_name_not_close: "tag_name_ok t \<Longrightarrow> \<not> startswith (''<'' @ t @ ''>'') (''</'' @ u)"
  by (cases t) (auto simp: tag_name_ok_def is_ascii_alnum_def)

lemma tag_name_no_markup: "tag_name_ok t \<Longrightarrow> CHR ''<'' \<notin> set t \<and> CHR ''>'' \<notin> set t"
  using alnum_not_markup by (auto simp: tag_name_ok_def list_all_iff)

lemma parse_steps_nest:
  assumes "tag_name_ok t"
  shows "parse_steps new_root [] (concat (replicate n (''<'' @ t @ ''>''))) =
           Some (\<lparr>nodes = wrap (replicate n (t, [])) []\<rparr>, [])"
proof (induction n)
  case 0
  then show ?case by (simp add: new_root_def)
next
  case (Suc n)
  let ?f = "''<'' @ t @ ''>''"
  have nc: "not_closing (replicate n (t, [])) ?f"
    using tag_name_not_close [OF assms] by (cases n) (auto simp: not_closing_def)
  have "root_digest \<lparr>nodes = wrap (replicate n (t, [])) []\<rparr> ?f =
          Some \<lparr>nodes = wrap (replicate (Suc n) (t, [])) []\<rparr>"
    using root_digest_focus_new [OF _ nc, of "[]"] get_new_node_tag [OF assms]
    by (simp add: no_accept_def)
  then show ?case
    using Suc parse_steps_tag [OF tag_frags_of_name(1) [OF assms], of "\<lparr>nodes = wrap (replicate n (t, [])) []\<rparr>" "[]" "[]"]
    by (simp add: concat_replicate_snoc parse_steps_append py_strip_Nil_iff del: replicate_Suc)
qed

lemma root_digest_depth_wrap:
  "will_accept X f \<Longrightarrow>
   root_digest_depth \<lparr>nodes = wrap ctx (ns @ [X])\<rparr> f = length ctx + Suc (max 1 (digest_depth X f))"
proof (induction ctx arbitrary: ns X)
  case Nil
  then show ?case by (simp add: root_digest_depth_def)
next
  case (Cons frame ctx)
  obtain t ns' where frame: "frame = (t, ns')" by (cases frame)
  have "will_accept (HTMLNode t (ns @ [X]) False) f" by simp
  from Cons.IH [OF this, of ns'] Cons.prems show ?case by (simp add: frame)
qed

lemma parse_depth_loop_append:
  "parse_depth_loop root buffer (s @ t) =
     max (parse_depth_loop root buffer s)
         (case parse_steps root buffer s of None \<Rightarrow> 0 | Some (r, b) \<Rightarrow> parse_depth_loop r b t)"
  by (induction s arbitrary: root buffer) (auto split: option.splits)

lemma parse_depth_loop_tag:
  assumes "CHR ''<'' \<notin> set u" "CHR ''>'' \<notin> set u"
  shows "parse_depth_loop root (''<'' @ b) (u @ ''>'') = Suc (root_digest_depth root (''<'' @ b @ u @ ''>''))"
  using assms
proof (induction u arbitrary: b)
  case Nil
  obtain r' where "root_digest root (''<'' @ b @ ''>'') = Some r'" using root_digest_total by blast
  then show ?case by simp
next
  case (Cons c u)
  then have "c \<noteq> CHR ''<''" "c \<noteq> CHR ''>''" by auto
  then show ?case using Cons.IH [of "b @ [c]"] Cons.prems by simp
qed

text \<open>C8: the bound is tight: \<open>n\<close> nested opening tags followed by one more
  tag need \<open>n + 5\<close> frames, so \<open>parse_html\<close> raises \<open>RecursionError\<close>
  with a budget of \<open>n + 4\<close>, one less than the number of \<open><\<close> plus four.\<close>

theorem parse_html_nesting_error:
  assumes "tag_name_ok t" "tag_name_ok u"
  shows "parse_html_py (n + 4) (concat (replicate n (''<'' @ t @ ''>'')) @ ''<'' @ u @ ''>'') =
           Inl RecursionError"
proof -
  let ?f = "''<'' @ u @ ''>''" and ?R = "\<lparr>nodes = wrap (replicate n (t, [])) []\<rparr>"
  have new: "new_node_depth ?f = 3"
    using new_node_depth_element [of ?f u "[]" False] get_new_node_tag [OF assms(2)] by simp
  have "root_digest_depth ?R ?f = n + 4"
  proof (cases n)
    case 0
    then show ?thesis using new by (simp add: root_digest_depth_def)
  next
    case (Suc m)
    then have "?R = \<lparr>nodes = wrap (replicate m (t, [])) ([] @ [HTMLNode t [] False])\<rparr>" by simp
    then show ?thesis
      using root_digest_depth_wrap [of "HTMLNode t [] False" ?f "replicate m (t, [])" "[]"]
        tag_name_not_close [OF assms(2), of t] new Suc by simp
  qed
  moreover have "parse_depth_loop ?R [] ?f = Suc (root_digest_depth ?R ?f)"
    using parse_depth_loop_tag [of u ?R "[]"] tag_name_no_markup [OF assms(2)]
    by (simp add: py_strip_Nil_iff)
  ultimately have "n + 4 < parse_depth_loop new_root [] (concat (replicate n (''<'' @ t @ ''>'')) @ ?f)"
    using parse_steps_nest [OF assms(1), of n] by (simp add: parse_depth_loop_append)
  then show ?thesis
    using parse_loop_py_depth [of new_root "[]" "concat (replicate n (''<'' @ t @ ''>'')) @ ?f" "n + 4"]
    by (auto simp: parse_html_py_def)
qed

theorem parse_html_nesting_error_witness:
  "tag_name_ok ''div'' \<and> tag_name_ok ''p'' \<and>
   parse_html_py (3 + 4) (concat (replicate 3 ''<div>'') @ ''<p>'') = Inl RecursionError"
  using parse_html_nesting_error [of "''div''" "''p''" 3]
  by (simp add: tag_name_ok_def is_ascii_alnum_def VOID_TYPES_def)

subsection \<open>Text extraction is the deeper recursion\<close>






end
