(* ===== verification/Content.thy ===== *)
theory Content
  imports Tokenizer Text_Extraction
begin

text \<open>
  The parser invents no content: every character of a node's stored text came
  from a fragment the node was given, so every character of the rendered text
  is a character of the input or a newline the renderer inserts between
  texts.  \<open>node_content\<close> is all the text a node stores, children included.
\<close>

fun node_content :: "node \<Rightarrow> pystr" where
  "node_content (HTMLNode _ ns _) = concat (map node_content ns)"
| "node_content (TextNode content) = content"
| "node_content (TextareaNode content _) = content"
| "node_content (VoidHTMLNode _) = []"
| "node_content (CommentNode _) = []"
| "node_content DoctypeNode = []"

definition root_content :: "root_node \<Rightarrow> pystr" where
  "root_content r = concat (map node_content (nodes r))"

lemma get_new_node_content: "set (node_content (get_new_node f)) \<subseteq> set f"
  by (auto simp: get_new_node_def split: option.split)

lemma digest_content:
  "digest n f = Some n' \<Longrightarrow> set (node_content n') \<subseteq> set (node_content n) \<union> set f"
proof (induction n f arbitrary: n' rule: digest.induct)
  case (1 t ns closed buffer)
  show ?case
  proof (cases "ns \<noteq> [] \<and> will_accept (last ns) buffer")
    case True
    with "1.prems" obtain m where m: "digest (last ns) buffer = Some m"
      and n': "n' = HTMLNode t (butlast ns @ [m]) closed" by auto
    have "set (node_content m) \<subseteq> set (node_content (last ns)) \<union> set buffer"
      using "1.IH" [OF True m] .
    moreover have "set (node_content (last ns)) \<subseteq> set (concat (map node_content ns))"
    proof -
      have "last ns \<in> set ns" using True by simp
      then show ?thesis by (auto simp: set_concat)
    qed
    moreover have "set (concat (map node_content (butlast ns))) \<subseteq> set (concat (map node_content ns))"
      by (auto dest: in_set_butlastD)
    ultimately show ?thesis using n' by auto
  next
    case False
    with "1.prems" get_new_node_content [of buffer] show ?thesis
      by (auto split: if_splits)
  qed
qed auto

lemma root_digest_content:
  "root_digest r f = Some r' \<Longrightarrow> set (root_content r') \<subseteq> set (root_content r) \<union> set f"
proof -
  assume d: "root_digest r f = Some r'"
  let ?ns = "nodes r"
  show ?thesis
  proof (cases "?ns \<noteq> [] \<and> will_accept (last ?ns) f")
    case True
    with d obtain m where m: "digest (last ?ns) f = Some m" and r': "nodes r' = butlast ?ns @ [m]"
      by (auto simp: root_digest_def Let_def)
    have "last ?ns \<in> set ?ns" using True by simp
    then have "set (node_content (last ?ns)) \<subseteq> set (root_content r)"
      by (auto simp: root_content_def)
    moreover have "set (concat (map node_content (butlast ?ns))) \<subseteq> set (root_content r)"
      by (auto simp: root_content_def dest: in_set_butlastD)
    ultimately show ?thesis
      using digest_content [OF m] r' by (auto simp: root_content_def)
  next
    case False
    with d get_new_node_content [of f] show ?thesis
      by (auto simp: root_digest_def root_content_def)
  qed
qed

lemma parse_loop_content:
  "parse_loop root buf html = Some r \<Longrightarrow>
   set (root_content r) \<subseteq> set (root_content root) \<union> set buf \<union> set html"
proof (induction html arbitrary: root buf)
  case Nil
  then show ?case by simp
next
  case (Cons letter html)
  show ?case
  proof (cases "letter = CHR ''<''")
    case True
    then show ?thesis
    proof (cases "py_strip buf \<noteq> []")
      case flush: True
      with Cons.prems True obtain root' where d: "root_digest root buf = Some root'"
        and l: "parse_loop root' ''<'' html = Some r"
        by (auto split: option.splits)
      from Cons.IH [OF l] root_digest_content [OF d] True show ?thesis by auto
    next
      case False
      with Cons.prems True have "parse_loop root ''<'' html = Some r" by simp
      from Cons.IH [OF this] True show ?thesis by auto
    qed
  next
    case lt: False
    show ?thesis
    proof (cases "letter = CHR ''>''")
      case True
      with Cons.prems lt obtain root' where d: "root_digest root (buf @ [letter]) = Some root'"
        and l: "parse_loop root' [] html = Some r"
        by (auto split: option.splits)
      from Cons.IH [OF l] root_digest_content [OF d] show ?thesis by auto
    next
      case False
      with Cons.prems lt have "parse_loop root (buf @ [letter]) html = Some r" by simp
      from Cons.IH [OF this] show ?thesis by auto
    qed
  qed
qed

lemma get_text_content: "set (get_text n) \<subseteq> insert CHR ''\<newline>'' (set (node_content n))"
proof (induction n rule: get_text.induct)
  case (1 t ns closed)
  have "set (get_text (HTMLNode t ns closed)) \<subseteq> insert CHR ''\<newline>'' (\<Union>n \<in> set ns. set (get_text n))"
    using set_py_join [of "''\<newline>''"] by (force simp del: set_concat)
  moreover have "set (get_text (HTMLNode t ns closed)) = {}" if "\<not> is_visible t"
    using that by simp
  ultimately show ?case using "1.IH" by (cases "is_visible t") (auto simp del: get_text.simps)
next
  case (5 content closed)
  then show ?case using set_split_first [of content "''</textarea''"] by auto
qed auto

text \<open>C19: the parser and renderer invent nothing: every character of the
  rendered text of a page is a character of the page or a newline inserted
  between texts.\<close>

theorem rendered_text_from_input:
  "parse_html html = Some r \<Longrightarrow> set (root_get_text r) \<subseteq> insert CHR ''\<newline>'' (set html)"
proof -
  assume p: "parse_html html = Some r"
  have "set (root_content r) \<subseteq> set html"
    using parse_loop_content [of new_root "[]" html r] p
    by (simp add: parse_html_def root_content_def new_root_def)
  moreover have "set (root_get_text r) \<subseteq> insert CHR ''\<newline>'' (set (root_content r))"
  proof -
    have "set (root_get_text r) \<subseteq> insert CHR ''\<newline>'' (\<Union>n \<in> set (nodes r). set (get_text n))"
      using set_py_join [of "''\<newline>''" "filter_none (map get_text (nodes r))"]
      by (auto simp: root_get_text_def)
    with get_text_content show ?thesis by (fastforce simp: root_content_def)
  qed
  ultimately show ?thesis by blast
qed

theorem rendered_text_from_input_witness:
  "parse_html ''<p>a</p><b>c</b>'' = Some \<lparr>nodes = [HTMLNode ''p'' [TextNode ''a''] True, HTMLNode ''b'' [TextNode ''c''] True]\<rparr> \<and>
   set (root_get_text \<lparr>nodes = [HTMLNode ''p'' [TextNode ''a''] True, HTMLNode ''b'' [TextNode ''c''] True]\<rparr>) \<subseteq>
     insert CHR ''\<newline>'' (set ''<p>a</p><b>c</b>'')"
proof -
  have p: "parse_html ''<p>a</p><b>c</b>'' =
      Some \<lparr>nodes = [HTMLNode ''p'' [TextNode ''a''] True, HTMLNode ''b'' [TextNode ''c''] True]\<rparr>"
    by (simp add: parse_eval)
  show ?thesis using rendered_text_from_input [OF p] p by simp
qed

end
