(* ===== verification/Analyser.thy ===== *)
theory Analyser
  imports Prelude "HOL-Library.Multiset"
begin

text \<open>
  The word-frequency summariser of \<open>src/analyser/analyse.py\<close>.
  \<open>re.sub(NON_WORD_CHARS_REGEX, " ", text)\<close> replaces every maximal run of
  characters matched by \<open>[\W_0-9]\<close> with one space (\<open>sub_non_word\<close>);
  \<open>re.split(" ", text)\<close> is \<open>py_split\<close>; the \<open>defaultdict\<close> of counts is an
  association list in insertion order (Python dictionaries keep it), updated in
  place by \<open>bump\<close>; \<open>AnalyseResult\<close> sorts the items by count with
  \<open>reverse=True\<close>, which CPython implements as reverse, stable sort, reverse.
\<close>

type_synonym word_stats = "(pystr \<times> nat) list"

function sub_non_word :: "pystr \<Rightarrow> pystr" where
  "sub_non_word [] = []"
| "sub_non_word (c # cs) =
     (if is_word_char c then c # sub_non_word cs
      else CHR '' '' # sub_non_word (dropWhile (\<lambda>x. \<not> is_word_char x) cs))"
  by pat_completeness auto
termination
  by (relation "measure length") (auto simp: le_imp_less_Suc length_dropWhile_le)

definition remove_non_word_characters :: "pystr \<Rightarrow> pystr" where
  "remove_non_word_characters text = py_strip (sub_non_word text)"

definition divide_text_into_words :: "pystr \<Rightarrow> pystr list" where
  "divide_text_into_words text = py_split CHR '' '' text"

text \<open>\<open>words_statistics[word.lower()] += 1\<close> on a \<open>defaultdict(lambda: 0)\<close>:
  a missing key is inserted at the end with 0 and then incremented.\<close>

fun bump :: "word_stats \<Rightarrow> pystr \<Rightarrow> word_stats" where
  "bump [] k = [(k, 1)]"
| "bump ((k', c) # xs) k = (if k' = k then (k', Suc c) # xs else (k', c) # bump xs k)"

fun count_loop :: "word_stats \<Rightarrow> pystr list \<Rightarrow> word_stats" where
  "count_loop stats [] = stats"
| "count_loop stats (word # words) = count_loop (bump stats (py_lower word)) words"

definition count_words_occurrences :: "pystr list \<Rightarrow> word_stats" where
  "count_words_occurrences words = count_loop [] words"

text \<open>\<open>list.sort(key=lambda x: x[1], reverse=True)\<close>.\<close>

definition AnalyseResult :: "word_stats \<Rightarrow> word_stats" where
  "AnalyseResult stats = rev (sort_key snd (rev stats))"

definition get_most_used_words :: "word_stats \<Rightarrow> nat \<Rightarrow> word_stats" where
  "get_most_used_words stats cnt = take cnt stats"

definition analyse :: "pystr \<Rightarrow> word_stats" where
  "analyse text =
     AnalyseResult (count_words_occurrences (divide_text_into_words (remove_non_word_characters text)))"

text \<open>The maximal runs of word characters (\<open>is_word_char\<close>) of a text, in
  order: the reference for the words the analyser counts.\<close>

abbreviation non_word_char :: "char \<Rightarrow> bool" where
  "non_word_char c \<equiv> \<not> is_word_char c"

function word_runs :: "pystr \<Rightarrow> pystr list" where
  "word_runs t =
     (let t' = dropWhile non_word_char t in
      if t' = [] then [] else takeWhile is_word_char t' # word_runs (dropWhile is_word_char t'))"
  by pat_completeness auto
termination
proof (relation "measure length")
  fix t t' :: pystr
  assume t': "t' = dropWhile non_word_char t" and ne: "t' \<noteq> []"
  then have "is_word_char (hd t')" by (metis hd_dropWhile)
  with ne have "length (dropWhile is_word_char t') < length t'"
    by (cases t') (auto simp: le_imp_less_Suc length_dropWhile_le)
  moreover have "length t' \<le> length t" using t' by (simp add: length_dropWhile_le)
  ultimately show "(dropWhile is_word_char t', t) \<in> measure length" by simp
qed simp

declare word_runs.simps [simp del]

subsection \<open>Counting\<close>

text \<open>The reference: each distinct lowered word once, in the order of its first
  occurrence, with the number of its occurrences.\<close>

definition first_occurrences :: "'a list \<Rightarrow> 'a list" where
  "first_occurrences xs = rev (remdups (rev xs))"

definition word_counts :: "pystr list \<Rightarrow> word_stats" where
  "word_counts ws = map (\<lambda>w. (w, count_list ws w)) (first_occurrences ws)"

lemma first_occurrences_snoc:
  "first_occurrences (xs @ [k]) =
     (if k \<in> set xs then first_occurrences xs else first_occurrences xs @ [k])"
  by (simp add: first_occurrences_def)

lemma distinct_first_occurrences: "distinct (first_occurrences xs)"
  by (simp add: first_occurrences_def)

lemma bump_map:
  "distinct ks \<Longrightarrow>
   bump (map (\<lambda>w. (w, f w)) ks) k =
     map (\<lambda>w. (w, if w = k then Suc (f w) else f w)) ks @ (if k \<in> set ks then [] else [(k, 1)])"
  by (induction ks) auto

lemma bump_word_counts: "bump (word_counts ws) k = word_counts (ws @ [k])"
proof (cases "k \<in> set ws")
  case True
  then show ?thesis
    by (simp add: word_counts_def bump_map distinct_first_occurrences first_occurrences_snoc
        first_occurrences_def)
next
  case False
  then have "count_list ws k = 0" by (simp add: count_list_0_iff)
  with False show ?thesis
    by (simp add: word_counts_def bump_map distinct_first_occurrences first_occurrences_snoc
        first_occurrences_def)
qed

lemma count_loop_word_counts:
  "count_loop (word_counts ws) words = word_counts (ws @ map py_lower words)"
  by (induction words arbitrary: ws) (simp_all add: bump_word_counts)

text \<open>C11: the counting loop computes, for the lowered words, each distinct word in
  the order it first occurs, with its number of occurrences.\<close>

theorem count_words_occurrences_spec:
  "count_words_occurrences words = word_counts (map py_lower words)"
  using count_loop_word_counts [of "[]" words]
  by (simp add: count_words_occurrences_def word_counts_def first_occurrences_def)

subsection \<open>Sorting\<close>

text \<open>C13: reverse, stable sort by count, reverse is the stable sort by descending
  count: the items in decreasing count, items of equal count in their original
  (first-occurrence) order.\<close>

theorem AnalyseResult_stable_desc:
  "AnalyseResult stats = sort_key (\<lambda>p. - int (snd p)) stats"
proof (rule sym, rule properties_for_sort_key)
  show "mset (AnalyseResult stats) = mset stats"
    by (simp add: AnalyseResult_def)
next
  fix k
  let ?P = "\<lambda>x :: pystr \<times> nat. snd k = snd x"
  have "filter ?P (AnalyseResult stats) = rev (filter ?P (sort_key snd (rev stats)))"
    by (simp add: AnalyseResult_def rev_filter)
  also have "filter ?P (sort_key snd (rev stats)) = filter ?P (rev stats)"
    using sort_key_stable [of snd "snd k" "rev stats"] by (simp add: eq_commute)
  also have "rev (filter ?P (rev stats)) = filter ?P stats"
    by (simp add: rev_filter [symmetric])
  finally show "filter (\<lambda>x. - int (snd k) = - int (snd x)) (AnalyseResult stats) =
      filter (\<lambda>x. - int (snd k) = - int (snd x)) stats"
    by simp
next
  show "sorted (map (\<lambda>p. - int (snd p)) (AnalyseResult stats))"
    using sorted_sort_key [of snd "rev stats"]
    by (simp add: AnalyseResult_def rev_map sorted_wrt_rev sorted_wrt_map)
qed

subsection \<open>The most used words\<close>

lemma AnalyseResult_sorted_desc: "sorted_wrt (\<lambda>a b. snd b \<le> snd a) (AnalyseResult stats)"
proof -
  have "sorted (map snd (sort_key snd (rev stats)))" by (rule sorted_sort_key)
  then show ?thesis
    by (simp add: AnalyseResult_def sorted_wrt_rev sorted_map)
qed

text \<open>C27: \<open>get_most_used_words\<close> keeps the most frequent words: no item left
  out has a larger count than an item kept.\<close>

theorem most_used_words_top:
  assumes "p \<in> set (get_most_used_words (AnalyseResult stats) n)"
    and "q \<in> set (drop n (AnalyseResult stats))"
  shows "snd q \<le> snd p"
proof -
  have "sorted_wrt (\<lambda>a b. snd b \<le> snd a) (take n (AnalyseResult stats) @ drop n (AnalyseResult stats))"
    using AnalyseResult_sorted_desc [of stats] by (simp only: append_take_drop_id)
  then have "\<forall>x \<in> set (take n (AnalyseResult stats)). \<forall>y \<in> set (drop n (AnalyseResult stats)). snd y \<le> snd x"
    unfolding sorted_wrt_append by (elim conjE)
  with assms show ?thesis by (auto simp: get_most_used_words_def)
qed

theorem most_used_words_top_witness:
  "snd (''b'', 1::nat) \<le> snd (''a'', 2::nat) \<and>
   (''a'', 2) \<in> set (get_most_used_words (AnalyseResult [(''b'', 1), (''a'', 2)]) 1) \<and>
   (''b'', 1) \<in> set (drop 1 (AnalyseResult [(''b'', 1), (''a'', 2)]))"
proof -
  have p: "(''a'', 2) \<in> set (get_most_used_words (AnalyseResult [(''b'', 1), (''a'', 2)]) 1)"
    by (simp add: AnalyseResult_def get_most_used_words_def)
  have q: "(''b'', 1) \<in> set (drop 1 (AnalyseResult [(''b'', 1), (''a'', 2)]))"
    by (simp add: AnalyseResult_def)
  show ?thesis using most_used_words_top [OF p q] p q by simp
qed

subsection \<open>Cleaning keeps the word characters\<close>

lemma word_char_not_space: "is_word_char c \<Longrightarrow> \<not> py_isspace c"
  by (auto simp: is_word_char_def py_isspace_def Let_def)

lemma space_not_word_char: "\<not> is_word_char CHR '' ''"
  by (simp add: is_word_char_def)

subsection \<open>The words are the runs of word characters\<close>

lemma sub_non_word_chars_append:
  "\<forall>c \<in> set a. is_word_char c \<Longrightarrow> sub_non_word (a @ r) = a @ sub_non_word r"
  by (induction a) auto

lemma sub_non_word_non_word_char_hd:
  "t \<noteq> [] \<Longrightarrow> non_word_char (hd t) \<Longrightarrow> sub_non_word t = CHR '' '' # sub_non_word (dropWhile non_word_char t)"
  by (cases t) auto

lemma word_runs_Nil_iff: "word_runs t = [] \<longleftrightarrow> (\<forall>c \<in> set t. non_word_char c)"
  by (subst word_runs.simps) (auto simp: Let_def)

lemma word_runs_words: "w \<in> set (word_runs t) \<Longrightarrow> w \<noteq> [] \<and> (\<forall>c \<in> set w. is_word_char c)"
proof (induction t rule: word_runs.induct)
  case (1 t)
  let ?t' = "dropWhile non_word_char t"
  show ?case
  proof (cases "?t' = []")
    case True
    with "1.prems" show ?thesis by (subst (asm) word_runs.simps) (simp add: Let_def)
  next
    case False
    then have "is_word_char (hd ?t')" by (metis hd_dropWhile)
    with False have ne: "takeWhile is_word_char ?t' \<noteq> []" by (cases ?t') auto
    from "1.prems" False have
      "w = takeWhile is_word_char ?t' \<or> w \<in> set (word_runs (dropWhile is_word_char ?t'))"
      by (subst (asm) word_runs.simps) (simp add: Let_def del: dropWhile_eq_Nil_conv)
    then show ?thesis
    proof
      assume "w = takeWhile is_word_char ?t'"
      with ne show ?thesis by (auto dest: set_takeWhileD)
    next
      assume "w \<in> set (word_runs (dropWhile is_word_char ?t'))"
      then show ?thesis using "1.IH" [OF refl False] by blast
    qed
  qed
qed

lemma word_runs_unfold:
  "word_runs t =
     (if dropWhile non_word_char t = [] then []
      else takeWhile is_word_char (dropWhile non_word_char t) #
           word_runs (dropWhile is_word_char (dropWhile non_word_char t)))"
  by (subst word_runs.simps) (simp add: Let_def del: dropWhile_eq_Nil_conv)

lemma last_dropWhile: "dropWhile P t \<noteq> [] \<Longrightarrow> last (dropWhile P t) = last t"
  by (induction t) auto

lemma sub_non_word_runs:
  "sub_non_word t =
     (if t \<noteq> [] \<and> non_word_char (hd t) then '' '' else []) @ py_join '' '' (word_runs t) @
     (if word_runs t \<noteq> [] \<and> non_word_char (last t) then '' '' else [])"
proof (induction t rule: word_runs.induct)
  case (1 t)
  define t' where "t' = dropWhile non_word_char t"
  define lead where "lead = (if t \<noteq> [] \<and> non_word_char (hd t) then '' '' else [])"
  have A: "sub_non_word t = lead @ sub_non_word t'"
  proof (cases "t \<noteq> [] \<and> non_word_char (hd t)")
    case True
    then show ?thesis by (simp add: lead_def t'_def sub_non_word_non_word_char_hd)
  next
    case False
    then have "t' = t" by (cases t) (auto simp: t'_def)
    with False show ?thesis by (simp add: lead_def)
  qed
  show ?case
  proof (cases "t' = []")
    case True
    then have "word_runs t = []" by (simp add: word_runs_unfold t'_def del: dropWhile_eq_Nil_conv)
    with A True show ?thesis by (simp add: lead_def)
  next
    case t'ne: False
    define a where "a = takeWhile is_word_char t'"
    define r where "r = dropWhile is_word_char t'"
    have runs: "word_runs t = a # word_runs r"
      using t'ne by (simp add: word_runs_unfold a_def r_def t'_def del: dropWhile_eq_Nil_conv)
    have t'a: "t' = a @ r" by (simp add: a_def r_def)
    have al: "\<forall>c \<in> set a. is_word_char c" by (auto simp: a_def dest: set_takeWhileD)
    have "is_word_char (hd t')" using t'ne by (metis hd_dropWhile t'_def)
    then have ane: "a \<noteq> []" using t'ne by (cases t') (auto simp: a_def)
    have lt: "last t = last t'" using t'ne by (simp add: t'_def last_dropWhile)
    have sub': "sub_non_word t' = a @ sub_non_word r"
      using t'a al by (simp add: sub_non_word_chars_append)
    have IH: "sub_non_word r =
       (if r \<noteq> [] \<and> non_word_char (hd r) then '' '' else []) @ py_join '' '' (word_runs r) @
       (if word_runs r \<noteq> [] \<and> non_word_char (last r) then '' '' else [])"
      using "1.IH" [OF t'_def t'ne] by (simp add: r_def)
    show ?thesis
    proof (cases "r = []")
      case True
      then have "word_runs r = []" by (simp add: word_runs_Nil_iff)
      moreover have "is_word_char (last t)" using lt t'a True ane al by simp
      ultimately show ?thesis using A sub' IH True runs by (simp add: lead_def)
    next
      case rne: False
      have "non_word_char (hd r)" using rne by (simp add: r_def hd_dropWhile)
      then have subr: "sub_non_word r = '' '' @ py_join '' '' (word_runs r) @
          (if word_runs r \<noteq> [] \<and> non_word_char (last r) then '' '' else [])"
        using IH rne by simp
      have ltr: "last t = last r" using lt t'a rne by simp
      show ?thesis
      proof (cases "word_runs r = []")
        case True
        then have "non_word_char (last r)" using rne by (simp add: word_runs_Nil_iff)
        with True A sub' subr runs ltr show ?thesis by (simp add: lead_def)
      next
        case False
        with A sub' subr runs ltr show ?thesis by (simp add: lead_def py_join_Cons)
      qed
    qed
  qed
qed

lemma dropWhile_append_not_hd:
  "J \<noteq> [] \<Longrightarrow> \<not> P (hd J) \<Longrightarrow> dropWhile P (J @ T) = J @ T"
  by (cases J) auto

lemma py_strip_pad:
  assumes "\<forall>c \<in> set lead. py_isspace c" and "\<forall>c \<in> set trail. py_isspace c"
    and "J = [] \<or> (\<not> py_isspace (hd J) \<and> \<not> py_isspace (last J))"
  shows "py_strip (lead @ J @ trail) = J"
proof (cases "J = []")
  case True
  with assms(1,2) show ?thesis by (auto simp: py_strip_Nil_iff)
next
  case False
  with assms(3) have h: "\<not> py_isspace (hd J)" and l: "\<not> py_isspace (last J)" by auto
  have "dropWhile py_isspace (lead @ J @ trail) = J @ trail"
    using assms(1) False h by (simp add: dropWhile_append_not_hd)
  moreover have "dropWhile py_isspace (rev J) = rev J"
    using dropWhile_append_not_hd [of "rev J" py_isspace "[]"] False l by (simp add: hd_rev)
  moreover have "dropWhile py_isspace (rev trail @ rev J) = dropWhile py_isspace (rev J)"
    using assms(2) by (intro dropWhile_append2) simp
  ultimately show ?thesis by (simp add: py_strip_def del: dropWhile_eq_self_iff)
qed

lemma py_join_hd_last:
  "\<forall>w \<in> set ws. w \<noteq> [] \<Longrightarrow> ws \<noteq> [] \<Longrightarrow>
   hd (py_join sep ws) = hd (hd ws) \<and> last (py_join sep ws) = last (last ws)"
proof (induction sep ws rule: py_join.induct)
  case (3 sep x y zs)
  then have "py_join sep (y # zs) \<noteq> []" by (cases zs) auto
  with 3 show ?case by auto
qed auto

lemma remove_non_word_characters_runs:
  "remove_non_word_characters t = py_join '' '' (word_runs t)"
proof -
  let ?J = "py_join '' '' (word_runs t)"
  have sp: "py_isspace CHR '' ''" by (simp add: py_isspace_def)
  have words: "\<forall>w \<in> set (word_runs t). w \<noteq> [] \<and> (\<forall>c \<in> set w. is_word_char c)"
    using word_runs_words by blast
  have "?J = [] \<or> (\<not> py_isspace (hd ?J) \<and> \<not> py_isspace (last ?J))"
  proof (cases "word_runs t = []")
    case False
    then have "hd ?J = hd (hd (word_runs t)) \<and> last ?J = last (last (word_runs t))"
      using words py_join_hd_last by blast
    moreover have "is_word_char (hd (hd (word_runs t)))"
    proof -
      have "hd (word_runs t) \<in> set (word_runs t)" using False by simp
      with words have "hd (word_runs t) \<noteq> [] \<and> (\<forall>c \<in> set (hd (word_runs t)). is_word_char c)"
        by blast
      then show ?thesis by (simp add: hd_in_set)
    qed
    moreover have "is_word_char (last (last (word_runs t)))"
    proof -
      have "last (word_runs t) \<in> set (word_runs t)" using False by simp
      with words have "last (word_runs t) \<noteq> [] \<and> (\<forall>c \<in> set (last (word_runs t)). is_word_char c)"
        by blast
      then show ?thesis by (simp add: last_in_set)
    qed
    ultimately show ?thesis by (auto dest: word_char_not_space)
  qed simp
  then show ?thesis
    unfolding remove_non_word_characters_def
    by (subst sub_non_word_runs) (rule py_strip_pad, auto simp: sp)
qed

lemma py_split_no_sep: "c \<notin> set w \<Longrightarrow> py_split c w = [w]"
  by (induction w) (auto simp: Let_def)

lemma py_split_append_sep: "c \<notin> set w \<Longrightarrow> py_split c (w @ c # rest) = w # py_split c rest"
  by (induction w) (auto simp: Let_def)

lemma py_split_py_join:
  "ws \<noteq> [] \<Longrightarrow> \<forall>w \<in> set ws. c \<notin> set w \<Longrightarrow> py_split c (py_join [c] ws) = ws"
  by (induction "[c]" ws rule: py_join.induct) (auto simp: py_split_no_sep py_split_append_sep)

text \<open>C26: the words the analyser counts are exactly the maximal runs of word
  characters of the text, in order; a text without word characters gives the
  single empty word.  The word characters are more than the letters the comment
  of \<open>remove_non_word_characters\<close> promises: \<open>10m\<^sup>2 flat\<close> gives the words
  \<open>m\<^sup>2\<close> and \<open>flat\<close>.\<close>

theorem words_are_word_runs:
  "divide_text_into_words (remove_non_word_characters t) =
     (if word_runs t = [] then [[]] else word_runs t)"
proof -
  have "\<forall>w \<in> set (word_runs t). CHR '' '' \<notin> set w"
    using word_runs_words space_not_word_char by blast
  then show ?thesis
    by (simp add: remove_non_word_characters_runs divide_text_into_words_def py_split_py_join)
qed

subsection \<open>Letter runs across separators\<close>

lemma word_runs_dropWhile: "word_runs (dropWhile non_word_char t) = word_runs t"
  by (subst (1 2) word_runs.simps) simp

lemma word_runs_non_word_chars_append:
  "\<forall>x \<in> set p. non_word_char x \<Longrightarrow> word_runs (p @ t) = word_runs t"
  by (metis word_runs_dropWhile dropWhile_append2)

lemma take_drop_sep:
  "\<not> P c \<Longrightarrow> takeWhile P (u @ c # b) = takeWhile P u \<and> dropWhile P (u @ c # b) = dropWhile P u @ c # b"
  by (induction u) auto

lemma word_runs_append_sep:
  "non_word_char c \<Longrightarrow> word_runs (a @ c # b) = word_runs a @ word_runs b"
proof (induction a rule: word_runs.induct)
  case (1 a)
  let ?t' = "dropWhile non_word_char a"
  have cb: "word_runs (c # b) = word_runs b"
    using word_runs_non_word_chars_append [of "[c]" b] "1.prems" by simp
  show ?case
  proof (cases "?t' = []")
    case True
    then have "\<forall>x \<in> set a. non_word_char x" by simp
    then show ?thesis
      using word_runs_non_word_chars_append [of a "c # b"] cb True
      by (simp add: word_runs_Nil_iff)
  next
    case False
    define w r where "w = takeWhile is_word_char ?t'" and "r = dropWhile is_word_char ?t'"
    have ra: "word_runs a = w # word_runs r"
      using False by (simp add: word_runs_unfold w_def r_def del: dropWhile_eq_Nil_conv)
    obtain x where "x \<in> set a" "is_word_char x" using False by auto
    then have d: "dropWhile non_word_char (a @ c # b) = ?t' @ c # b"
      by (simp add: dropWhile_append1)
    have tw: "takeWhile is_word_char (?t' @ c # b) = w"
      and dw: "dropWhile is_word_char (?t' @ c # b) = r @ c # b"
      using take_drop_sep [of is_word_char c ?t' b] "1.prems" by (simp_all add: w_def r_def)
    have "word_runs (a @ c # b) = w # word_runs (r @ c # b)"
      by (subst word_runs_unfold) (simp only: d tw dw append_is_Nil_conv list.distinct simp_thms if_False)
    also have "word_runs (r @ c # b) = word_runs r @ word_runs b"
      using "1.IH" [OF refl False] "1.prems" by (simp add: r_def)
    finally show ?thesis by (simp add: ra)
  qed
qed

lemma word_runs_py_join:
  "non_word_char c \<Longrightarrow> word_runs (py_join [c] xs) = concat (map word_runs xs)"
  by (induction "[c]" xs rule: py_join.induct) (simp_all add: word_runs_append_sep word_runs_Nil_iff)

text \<open>The analysis of a text as a function of its word-character runs.\<close>

lemma analyse_word_runs:
  "analyse t =
     AnalyseResult (word_counts (map py_lower (if word_runs t = [] then [[]] else word_runs t)))"
proof -
  have "\<forall>w \<in> set (word_runs t). CHR '' '' \<notin> set w"
    using word_runs_words space_not_word_char by blast
  then have "divide_text_into_words (remove_non_word_characters t) =
      (if word_runs t = [] then [[]] else word_runs t)"
    by (simp add: remove_non_word_characters_runs divide_text_into_words_def py_split_py_join)
  then show ?thesis
    using count_loop_word_counts [of "[]"]
    by (simp add: analyse_def count_words_occurrences_def word_counts_def first_occurrences_def)
qed

subsection \<open>Text without words\<close>

lemma sub_non_word_no_letter:
  "\<forall>c \<in> set t. \<not> is_word_char c \<Longrightarrow> sub_non_word t = [] \<or> sub_non_word t = '' ''"
proof (cases t)
  case (Cons c cs)
  assume all: "\<forall>c \<in> set t. \<not> is_word_char c"
  with Cons have d: "dropWhile (\<lambda>x. \<not> is_word_char x) cs = []" by simp
  from all Cons have "\<not> is_word_char c" by simp
  with Cons d show ?thesis by (simp del: dropWhile_eq_Nil_conv)
qed simp

text \<open>C23: a text with no word character (empty, or only ASCII digits,
  punctuation and whitespace) yields one "word", the empty string, counted once: the split of the
  empty cleaned text is \<open>['']\<close>.\<close>

theorem analyse_no_letter:
  "\<forall>c \<in> set t. \<not> is_word_char c \<Longrightarrow> analyse t = [([], 1)]"
proof -
  assume "\<forall>c \<in> set t. \<not> is_word_char c"
  then have "remove_non_word_characters t = []"
    using sub_non_word_no_letter [of t]
    by (auto simp: remove_non_word_characters_def py_strip_def py_isspace_def)
  then show ?thesis
    by (simp add: analyse_def divide_text_into_words_def count_words_occurrences_def
        AnalyseResult_def py_lower_def)
qed

theorem analyse_no_letter_witness:
  "list_all (\<lambda>c. \<not> is_word_char c) ''42 !'' \<and> analyse ''42 !'' = [([], 1)]"
proof -
  have h: "\<forall>c \<in> set ''42 !''. \<not> is_word_char c" by (simp add: py_eval)
  then show ?thesis using analyse_no_letter [OF h] by simp
qed

end
