(* ===== verification/Report.thy ===== *)
theory Report
  imports Analyser
begin

text \<open>
  The output side of \<open>src/run.py\<close>: the message \<open>main\<close> prints and the JSON
  text \<open>save_to_file\<close> writes, both built from the list of the most used words.
  \<open>str(int)\<close> is \<open>py_str_nat\<close>; the f-string \<open>f"{w}: {c}"\<close> is
  \<open>report_item\<close>; \<open>json.dump(..., indent=4)\<close> with its defaults
  (\<open>ensure_ascii=True\<close>, separators \<open>(',', ': ')\<close>) is \<open>json_array\<close> over
  \<open>json_item\<close>, and a string is encoded as \<open>json.encoder\<close>'s
  \<open>py_encode_basestring_ascii\<close> does (\<open>json_string\<close>).  The decoder
  \<open>json_load_stats\<close> is the reading side, \<open>json.load\<close> on a file of that
  shape with string literals and whitespace as RFC 8259 defines them: the
  reference of the round trip that \<open>EndToEndTestCase.test_main\<close> checks on
  one page.
\<close>

abbreviation backslash :: char where "backslash \<equiv> CHR 0x5C"

abbreviation dquote :: char where "dquote \<equiv> CHR 0x22"

abbreviation tab :: char where "tab \<equiv> CHR 0x09"

subsection \<open>Printing a count\<close>

text \<open>\<open>str(n)\<close> for a non-negative Python int: its decimal digits.\<close>

fun py_str_nat :: "nat \<Rightarrow> pystr" where
  "py_str_nat n =
     (if n < 10 then [char_of (48 + n)] else py_str_nat (n div 10) @ [char_of (48 + n mod 10)])"

declare py_str_nat.simps [simp del]

definition is_digit :: "char \<Rightarrow> bool" where
  "is_digit c \<longleftrightarrow> 48 \<le> (of_char c :: nat) \<and> (of_char c :: nat) \<le> 57"

subsection \<open>The printed message\<close>

text \<open>\<open>f"{w}: {c}"\<close>.\<close>

definition report_item :: "pystr \<times> nat \<Rightarrow> pystr" where
  "report_item p = fst p @ '': '' @ py_str_nat (snd p)"

text \<open>The argument of \<open>print\<close> in \<open>main\<close>:
  \<open>f"Most used words on {url} are:\n\t" + "\n\t".join(...)\<close>.\<close>

definition report_message :: "pystr \<Rightarrow> word_stats \<Rightarrow> pystr" where
  "report_message url words =
     ''Most used words on '' @ url @ '' are:'' @ [CHR ''\<newline>'', tab] @
     py_join [CHR ''\<newline>'', tab] (map report_item words)"

subsection \<open>The saved JSON text\<close>

definition hex_digit :: "nat \<Rightarrow> char" where
  "hex_digit d = ''0123456789abcdef'' ! d"

text \<open>\<open>'\\u{0:04x}'.format(n)\<close>, for a code point below \<open>0x10000\<close>.\<close>

definition json_u_escape :: "nat \<Rightarrow> pystr" where
  "json_u_escape n = [backslash, CHR ''u''] @ map (\<lambda>k. hex_digit (n div 16 ^ k mod 16)) [3, 2, 1, 0]"

text \<open>The replacement of one character by \<open>py_encode_basestring_ascii\<close>: the
  characters outside \<open>' '..'~'\<close> and the two \<open>\\\<close> and \<open>"\<close> are escaped, by
  \<open>ESCAPE_DCT\<close> where it has an entry and as \<open>\\uXXXX\<close> otherwise.\<close>

definition json_escape_char :: "char \<Rightarrow> pystr" where
  "json_escape_char c =
     (let n = (of_char c :: nat) in
      if c = backslash then [backslash, backslash]
      else if c = dquote then [backslash, dquote]
      else if n = 8 then [backslash, CHR ''b'']
      else if n = 12 then [backslash, CHR ''f'']
      else if n = 10 then [backslash, CHR ''n'']
      else if n = 13 then [backslash, CHR ''r'']
      else if n = 9 then [backslash, CHR ''t'']
      else if 32 \<le> n \<and> n \<le> 126 then [c]
      else json_u_escape n)"

definition json_string :: "pystr \<Rightarrow> pystr" where
  "json_string s = dquote # concat (map json_escape_char s) @ [dquote]"

text \<open>A non-empty list at nesting level \<open>lvl\<close> with \<open>indent=4\<close>: each item on
  its own line, indented one level deeper, separated by \<open>,\<close>; the empty list
  is \<open>[]\<close> (\<open>json.encoder._iterencode_list\<close>).\<close>

definition json_newline_indent :: "nat \<Rightarrow> pystr" where
  "json_newline_indent lvl = CHR ''\<newline>'' # replicate (4 * lvl) (CHR '' '')"

definition json_array :: "nat \<Rightarrow> pystr list \<Rightarrow> pystr" where
  "json_array lvl items =
     (if items = [] then ''[]''
      else ''['' @ json_newline_indent (Suc lvl) @
           py_join ('','' @ json_newline_indent (Suc lvl)) items @ json_newline_indent lvl @ '']'')"

text \<open>A \<open>(word, count)\<close> tuple is written as a JSON array at level 1.\<close>

definition json_item :: "pystr \<times> nat \<Rightarrow> pystr" where
  "json_item p = json_array 1 [json_string (fst p), py_str_nat (snd p)]"

text \<open>The text \<open>save_to_file\<close> writes: \<open>json.dump([i for i in most_used_words], f,
  indent=4)\<close>.\<close>

definition save_to_file_content :: "word_stats \<Rightarrow> pystr" where
  "save_to_file_content most_used_words = json_array 0 (map json_item most_used_words)"

subsection \<open>Reading back\<close>

text \<open>The reading side of a JSON string literal (RFC 8259): the escapes
  \<open>\\" \\\\ \\/ \\b \\f \\n \\r \\t\<close> and \<open>\\uXXXX\<close>; an unescaped control character is
  rejected.  A code point above 255 is outside the model's characters and is
  rejected too.\<close>

definition hex_value :: "char \<Rightarrow> nat option" where
  "hex_value c =
     (let n = (of_char c :: nat) in
      if 48 \<le> n \<and> n \<le> 57 then Some (n - 48)
      else if 97 \<le> n \<and> n \<le> 102 then Some (n - 87)
      else if 65 \<le> n \<and> n \<le> 70 then Some (n - 55)
      else None)"

fun hex_number :: "nat \<Rightarrow> pystr \<Rightarrow> nat option" where
  "hex_number acc [] = Some acc"
| "hex_number acc (c # cs) =
     (case hex_value c of None \<Rightarrow> None | Some d \<Rightarrow> hex_number (16 * acc + d) cs)"

definition json_simple_escape :: "char \<Rightarrow> char option" where
  "json_simple_escape e =
     (if e = dquote \<or> e = backslash \<or> e = CHR ''/'' then Some e
      else if e = CHR ''b'' then Some (char_of (8 :: nat))
      else if e = CHR ''f'' then Some (char_of (12 :: nat))
      else if e = CHR ''n'' then Some (char_of (10 :: nat))
      else if e = CHR ''r'' then Some (char_of (13 :: nat))
      else if e = CHR ''t'' then Some (char_of (9 :: nat))
      else None)"

text \<open>The body of a string literal after its opening quote: the decoded
  characters up to the closing quote, and the input after it.\<close>

function json_unescape :: "pystr \<Rightarrow> (pystr \<times> pystr) option" where
  "json_unescape [] = None"
| "json_unescape (c # cs) =
     (if c = dquote then Some ([], cs)
      else if c = backslash then
        (case cs of
           [] \<Rightarrow> None
         | e # rest \<Rightarrow>
             if e = CHR ''u'' then
               (if length rest < 4 then None
                else case hex_number 0 (take 4 rest) of
                  None \<Rightarrow> None
                | Some n \<Rightarrow>
                    if n < 256 then map_option (apfst (Cons (char_of n))) (json_unescape (drop 4 rest))
                    else None)
             else (case json_simple_escape e of
                     None \<Rightarrow> None
                   | Some d \<Rightarrow> map_option (apfst (Cons d)) (json_unescape rest)))
      else if (of_char c :: nat) < 32 then None
      else map_option (apfst (Cons c)) (json_unescape cs))"
  by pat_completeness auto
termination
  by (relation "measure length") auto

text \<open>A string literal at the start of the input, and the input after it.\<close>

fun json_lex_string :: "pystr \<Rightarrow> (pystr \<times> pystr) option" where
  "json_lex_string [] = None"
| "json_lex_string (q # body) = (if q = dquote then json_unescape body else None)"

text \<open>A non-negative integer literal at the start of the input (its maximal run of
  digits), and the input after it.\<close>

definition json_lex_nat :: "pystr \<Rightarrow> (nat \<times> pystr) option" where
  "json_lex_nat s =
     (let ds = takeWhile is_digit s in
      if ds = [] then None
      else Some (foldl (\<lambda>a c. 10 * a + (of_char c - 48)) 0 ds, dropWhile is_digit s))"

definition json_ws :: "char \<Rightarrow> bool" where
  "json_ws c \<longleftrightarrow> c = CHR '' '' \<or> c = CHR ''\<newline>'' \<or> c = tab \<or> c = CHR 0x0D"

abbreviation skip_ws :: "pystr \<Rightarrow> pystr" where
  "skip_ws s \<equiv> dropWhile json_ws s"

text \<open>The input after the character \<open>c\<close>, where \<open>c\<close> comes next after
  whitespace.\<close>

definition json_expect :: "char \<Rightarrow> pystr \<Rightarrow> pystr option" where
  "json_expect c s = (case skip_ws s of [] \<Rightarrow> None | x # r \<Rightarrow> if x = c then Some r else None)"

text \<open>A two-element array \<open>[string, integer]\<close>, as \<open>json.load\<close> reads a saved
  tuple, and the input after it.\<close>

definition json_lex_pair :: "pystr \<Rightarrow> ((pystr \<times> nat) \<times> pystr) option" where
  "json_lex_pair s =
     (case json_expect CHR ''['' s of
        None \<Rightarrow> None
      | Some r \<Rightarrow>
          (case json_lex_string (skip_ws r) of
             None \<Rightarrow> None
           | Some (w, r1) \<Rightarrow>
               (case json_expect CHR '','' r1 of
                  None \<Rightarrow> None
                | Some r2 \<Rightarrow>
                    (case json_lex_nat (skip_ws r2) of
                       None \<Rightarrow> None
                     | Some (n, r3) \<Rightarrow> map_option (Pair (w, n)) (json_expect CHR '']'' r3)))))"

text \<open>The items of a non-empty array of pairs after its \<open>[\<close>, up to and including
  its \<open>]\<close>.  The reader is a partial function: on input it cannot finish it has
  no value.\<close>

partial_function (option) json_lex_items :: "pystr \<Rightarrow> (word_stats \<times> pystr) option" where
  "json_lex_items s =
     (case json_lex_pair s of
        None \<Rightarrow> None
      | Some (p, r) \<Rightarrow>
          (case json_expect CHR '','' r of
             Some r' \<Rightarrow> Option.bind (json_lex_items r') (\<lambda>(ps, r''). Some (p # ps, r''))
           | None \<Rightarrow> map_option (Pair [p]) (json_expect CHR '']'' r)))"

text \<open>\<open>json.load\<close> on a file holding an array of \<open>[string, integer]\<close> pairs:
  the array and nothing but whitespace after it.\<close>

definition json_load_stats :: "pystr \<Rightarrow> word_stats option" where
  "json_load_stats s =
     (case json_expect CHR ''['' s of
        None \<Rightarrow> None
      | Some r \<Rightarrow>
          (case json_expect CHR '']'' r of
             Some r' \<Rightarrow> (if skip_ws r' = [] then Some [] else None)
           | None \<Rightarrow>
               (case json_lex_items r of
                  Some (ws, r') \<Rightarrow> (if skip_ws r' = [] then Some ws else None)
                | None \<Rightarrow> None)))"

lemma hex_digit_value: "d < 16 \<Longrightarrow> hex_value (hex_digit d) = Some d"
proof -
  have "list_all (\<lambda>d. hex_value (hex_digit d) = Some d) [0..<16]"
    by (simp add: upt_rec hex_value_def hex_digit_def py_eval)
  then show "d < 16 \<Longrightarrow> ?thesis" by (simp add: list_all_iff)
qed

lemma hex_number_u_escape:
  assumes "n < 65536"
  shows "hex_number 0 (map (\<lambda>k. hex_digit (n div 16 ^ k mod 16)) [3, 2, 1, 0]) = Some n"
proof -
  have step: "16 * (m div 16) + m mod 16 = m" for m :: nat by simp
  have d: "n div 16 div 16 = n div 256" "n div 256 div 16 = n div 4096"
    by (simp_all add: div_mult2_eq [symmetric])
  have lt: "n div 4096 < 16" using assms by simp
  then have m: "n div 4096 mod 16 = n div 4096" by simp
  have "16 * (16 * (16 * (n div 4096) + n div 256 mod 16) + n div 16 mod 16) + n mod 16 = n"
    using step [of n] step [of "n div 16"] step [of "n div 256"] by (simp add: d)
  then show ?thesis by (simp add: hex_digit_value m lt)
qed

lemma json_unescape_u_escape:
  assumes "n < 256"
  shows "json_unescape (json_u_escape n @ rest) = map_option (apfst (Cons (char_of n))) (json_unescape rest)"
proof -
  let ?h = "map (\<lambda>k. hex_digit (n div 16 ^ k mod 16)) [3 :: nat, 2, 1, 0]"
  have "hex_number 0 (take 4 (?h @ rest)) = Some n"
    using hex_number_u_escape [of n] assms by simp
  moreover have "drop 4 (?h @ rest) = rest" by simp
  ultimately show ?thesis
    using assms by (simp add: json_u_escape_def del: list.map)
qed

lemma json_unescape_escape_char:
  "json_unescape (json_escape_char c @ rest) = map_option (apfst (Cons c)) (json_unescape rest)"
proof -
  define n where "n = (of_char c :: nat)"
  have c: "char_of n = c" by (simp add: n_def)
  have n: "n < 256" by (simp add: n_def)
  show ?thesis
  proof (cases "c = backslash \<or> c = dquote \<or> n \<in> {8, 9, 10, 12, 13} \<or> (32 \<le> n \<and> n \<le> 126)")
    case True
    then show ?thesis
      by (auto simp: json_escape_char_def json_simple_escape_def n_def [symmetric] c [symmetric])
  next
    case False
    then have "json_escape_char c = json_u_escape n"
      by (auto simp: json_escape_char_def n_def [symmetric])
    with json_unescape_u_escape [OF n, of rest] show ?thesis by (simp add: c)
  qed
qed

lemma json_lex_string_json_string: "json_lex_string (json_string s @ rest) = Some (s, rest)"
proof -
  have "json_unescape (concat (map json_escape_char s) @ dquote # rest) = Some (s, rest)"
    by (induction s) (simp_all add: json_unescape_escape_char)
  then show ?thesis by (simp add: json_string_def)
qed

lemma py_str_nat_digits: "py_str_nat n \<noteq> [] \<and> list_all is_digit (py_str_nat n)"
proof (induction n rule: py_str_nat.induct)
  case (1 n)
  have "n mod 10 \<le> 9" by simp
  with 1 show ?case by (simp add: py_str_nat.simps [of n] is_digit_def)
qed

lemma py_str_nat_value: "foldl (\<lambda>a c. 10 * a + (of_char c - 48)) 0 (py_str_nat n) = n"
proof (induction n rule: py_str_nat.induct)
  case (1 n)
  then show ?case by (simp add: py_str_nat.simps [of n])
qed

lemma hex_digit_ascii: "d < 16 \<Longrightarrow> (of_char (hex_digit d) :: nat) < 128"
proof -
  have "list_all (\<lambda>d. (of_char (hex_digit d) :: nat) < 128) [0..<16]"
    by (simp add: upt_rec hex_digit_def)
  then show "d < 16 \<Longrightarrow> ?thesis" by (simp add: list_all_iff)
qed

lemma json_escape_char_ascii: "list_all (\<lambda>x. (of_char x :: nat) < 128) (json_escape_char c)"
  by (simp add: json_escape_char_def json_u_escape_def hex_digit_ascii Let_def)

lemma py_str_nat_ascii: "list_all (\<lambda>x. (of_char x :: nat) < 128) (py_str_nat n)"
  using py_str_nat_digits [of n] by (auto simp: list_all_iff is_digit_def)

lemma json_array_ascii:
  "list_all (list_all (\<lambda>x. (of_char x :: nat) < 128)) items \<Longrightarrow>
   list_all (\<lambda>x. (of_char x :: nat) < 128) (json_array lvl items)"
proof -
  have "list_all (\<lambda>x. (of_char x :: nat) < 128) (replicate k (CHR '' ''))" for k
    by (simp add: list_all_iff)
  then show "list_all (list_all (\<lambda>x. (of_char x :: nat) < 128)) items \<Longrightarrow> ?thesis"
    by (simp add: json_array_def json_newline_indent_def list_all_py_join)
qed

text \<open>C16: the file \<open>save_to_file\<close> writes is pure ASCII, whatever the words:
  every character outside printable ASCII is escaped.\<close>

theorem save_to_file_ascii:
  "list_all (\<lambda>x. (of_char x :: nat) < 128) (save_to_file_content most_used_words)"
proof -
  have "list_all (\<lambda>x. (of_char x :: nat) < 128) (json_string s)" for s
    using json_escape_char_ascii by (simp add: json_string_def list_all_iff)
  then have "list_all (\<lambda>x. (of_char x :: nat) < 128) (json_item p)" for p
    by (simp add: json_item_def json_array_ascii py_str_nat_ascii)
  then have "list_all (list_all (\<lambda>x. (of_char x :: nat) < 128)) (map json_item most_used_words)"
    by (induction most_used_words) simp_all
  then show ?thesis by (simp add: save_to_file_content_def json_array_ascii)
qed

subsection \<open>The saved file loads back\<close>

lemma skip_ws_append: "list_all json_ws w \<Longrightarrow> skip_ws (w @ x) = skip_ws x"
  by (simp add: dropWhile_append2 list_all_iff)

lemma json_expect_append:
  "list_all json_ws w \<Longrightarrow> \<not> json_ws x \<Longrightarrow> json_expect c (w @ x # r) = (if x = c then Some r else None)"
  by (simp add: json_expect_def skip_ws_append)

lemma json_ws_newline_indent: "list_all json_ws (json_newline_indent k)"
  by (simp add: json_newline_indent_def json_ws_def list_all_iff)

lemma py_str_nat_Cons: "\<exists>d ds. py_str_nat n = d # ds \<and> is_digit d"
  using py_str_nat_digits [of n] by (cases "py_str_nat n") auto

lemma json_lex_nat_py_str_nat:
  "\<not> is_digit c \<Longrightarrow> json_lex_nat (py_str_nat n @ c # rest) = Some (n, c # rest)"
  using py_str_nat_digits [of n]
  by (simp add: json_lex_nat_def takeWhile_append2 dropWhile_append2 list_all_iff py_str_nat_value)

lemma json_lex_pair_item:
  assumes "list_all json_ws w"
  shows "json_lex_pair (w @ json_item p @ rest) = Some (p, rest)"
proof -
  obtain x n where p: "p = (x, n)" by (cases p)
  obtain d ds where d: "py_str_nat n = d # ds" "is_digit d" using py_str_nat_Cons by blast
  have nd: "\<not> json_ws d" using d(2) by (auto simp: is_digit_def json_ws_def)
  let ?nl1 = "json_newline_indent 1" and ?nl2 = "json_newline_indent 2"
  have item: "json_item p = CHR ''['' # ?nl2 @ json_string x @ CHR '','' # ?nl2 @ py_str_nat n @ ?nl1 @ '']''"
    by (simp add: json_item_def json_array_def p numeral_2_eq_2)
  have q: "json_string x = dquote # concat (map json_escape_char x) @ [dquote]"
    by (simp add: json_string_def)
  have nl1: "?nl1 = CHR ''\<newline>'' # replicate 4 (CHR '' '')"
    by (simp add: json_newline_indent_def)
  have lex_nat: "json_lex_nat (py_str_nat n @ ?nl1 @ CHR '']'' # rest) = Some (n, ?nl1 @ CHR '']'' # rest)"
    unfolding nl1 append_Cons by (rule json_lex_nat_py_str_nat) (simp add: is_digit_def)
  have br: "json_expect c (w' @ x' # r) = (if x' = c then Some r else None)"
    if "list_all json_ws w'" "x' \<in> {CHR ''['', CHR '','', CHR '']''}" for c w' x' r
    using that by (auto simp: json_expect_append json_ws_def)
  let ?R2 = "?nl2 @ py_str_nat n @ ?nl1 @ CHR '']'' # rest"
  have e1: "json_expect CHR ''['' (w @ json_item p @ rest) = Some (?nl2 @ json_string x @ CHR '','' # ?R2)"
    using br [of w "CHR ''[''"] assms by (simp add: item)
  have "skip_ws (?nl2 @ json_string x @ CHR '','' # ?R2) = json_string x @ CHR '','' # ?R2"
    by (simp add: skip_ws_append json_ws_newline_indent q json_ws_def)
  then have e2: "json_lex_string (skip_ws (?nl2 @ json_string x @ CHR '','' # ?R2)) = Some (x, CHR '','' # ?R2)"
    by (simp only: json_lex_string_json_string)
  have e3: "json_expect CHR '','' (CHR '','' # ?R2) = Some ?R2"
    using br [of "[]" "CHR '',''"] by simp
  have "skip_ws ?R2 = py_str_nat n @ ?nl1 @ CHR '']'' # rest"
    using nd by (simp add: skip_ws_append json_ws_newline_indent d(1))
  then have e4: "json_lex_nat (skip_ws ?R2) = Some (n, ?nl1 @ CHR '']'' # rest)"
    by (simp only: lex_nat)
  have e5: "json_expect CHR '']'' (?nl1 @ CHR '']'' # rest) = Some rest"
    using br [of ?nl1 "CHR '']''"] json_ws_newline_indent [of 1] by simp
  show ?thesis
    unfolding json_lex_pair_def e1 by (simp only: e2 e3 e4 e5 p option.case prod.case option.map)
qed

lemma json_lex_items_dump:
  "ps \<noteq> [] \<Longrightarrow>
   json_lex_items (json_newline_indent 1 @ py_join ('','' @ json_newline_indent 1) (map json_item ps) @
     json_newline_indent 0 @ '']'' @ rest) = Some (ps, rest)"
proof (induction ps rule: induct_list012)
  case (2 p)
  have "json_expect CHR '','' (json_newline_indent 0 @ CHR '']'' # rest) = None"
    and "json_expect CHR '']'' (json_newline_indent 0 @ CHR '']'' # rest) = Some rest"
    by (simp_all add: json_expect_append json_ws_newline_indent json_ws_def)
  with json_lex_pair_item [OF json_ws_newline_indent, of 1 p "json_newline_indent 0 @ '']'' @ rest"]
  show ?case by (subst json_lex_items.simps) simp
next
  case (3 p q ps)
  let ?T = "py_join ('','' @ json_newline_indent 1) (map json_item (q # ps)) @ json_newline_indent 0 @ '']'' @ rest"
  have "json_expect CHR '','' (CHR '','' # json_newline_indent 1 @ ?T) = Some (json_newline_indent 1 @ ?T)"
    using json_expect_append [of "[]" "CHR '',''"] by (simp add: json_ws_def)
  with json_lex_pair_item [OF json_ws_newline_indent, of 1 p "CHR '','' # json_newline_indent 1 @ ?T"] "3.IH"(2)
  show ?case by (subst json_lex_items.simps) (simp del: py_join.simps add: py_join_Cons)
qed simp

text \<open>C15: what \<open>save_to_file\<close> writes, \<open>json.load\<close> reads back: the saved
  file holds exactly the list of words and counts, in order, whatever the
  words.\<close>

theorem save_to_file_roundtrip: "json_load_stats (save_to_file_content most_used_words) = Some most_used_words"
proof (cases "most_used_words = []")
  case True
  then show ?thesis
    by (simp add: save_to_file_content_def json_array_def json_load_stats_def json_expect_def json_ws_def)
next
  case False
  let ?R = "json_newline_indent 1 @ py_join ('','' @ json_newline_indent 1) (map json_item most_used_words) @
     json_newline_indent 0 @ '']''"
  have dump: "save_to_file_content most_used_words = CHR ''['' # ?R"
    using False by (simp add: save_to_file_content_def json_array_def)
  obtain p ps where ps: "most_used_words = p # ps" using False by (cases most_used_words) auto
  obtain t where "py_join ('','' @ json_newline_indent 1) (map json_item most_used_words) = json_item p @ t"
    by (cases ps) (auto simp: ps)
  moreover obtain u where "json_item p = CHR ''['' # u"
    by (simp add: json_item_def json_array_def)
  ultimately have "?R = json_newline_indent 1 @ CHR ''['' # u @ t @ json_newline_indent 0 @ '']''"
    by simp
  then have "json_expect CHR '']'' ?R = None"
    by (simp add: json_expect_append json_ws_newline_indent json_ws_def)
  moreover have "json_lex_items ?R = Some (most_used_words, [])"
    using json_lex_items_dump [OF False, of "[]"] by simp
  ultimately show ?thesis
    by (simp add: json_load_stats_def dump json_expect_def json_ws_def)
qed

end
