(* ===== verification/Spec2Isabelle.thy ===== *)
theory Spec2Isabelle
  imports Tree_Invariants Recursion Content Analyser Report
begin

text \<open>
  A verification model of the HTML-to-text parser and word counter of the
  repository: \<open>src/html_parser/parser.py\<close>, \<open>src/analyser/analyse.py\<close>
  and \<open>src/run.py\<close> from the HTTP response on.

  \<^bold>\<open>The program.\<close>  \<open>parse_html\<close> reads an HTML string one character at a
  time.  It keeps one buffer and hands it to a \<open>RootNode\<close> at every \<open><\<close>
  (unless the buffer is blank) and at every \<open>>\<close>.  The root and every
  \<open>HTMLNode\<close> route a fragment to their last child when that child
  \<open>will_accept\<close>s it.  Otherwise an \<open>HTMLNode\<close> closes on its own closing
  tag, and failing that appends a new child of the class \<open>get_new_node\<close>
  chooses.  After parsing, \<open>get_text\<close> walks the tree and joins the visible
  texts with newlines.  \<open>run.main\<close> passes that text to \<open>analyse\<close>, which
  cleans it, splits it into words, counts them case-insensitively and sorts the
  counts.  \<open>main\<close> prints the ten most used words, one tab-indented line
  each, and \<open>save_to_file\<close> writes them as an indented JSON array.

  \<^bold>\<open>The theories and how they correspond to the code.\<close>
  \<^item> \<open>Prelude\<close>: Python string semantics over \<open>char\<close> lists, read as the code
    points 0..255: \<open>str.isspace\<close>, \<open>strip\<close>, \<open>startswith\<close>,
    \<open>endswith\<close>, \<open>in\<close>, \<open>split\<close>, \<open>join\<close>, \<open>lower\<close> and the
    regular-expression classes.  It also holds the join and split lemmas shared by
    the renderer and the analyser, and the collection \<open>py_eval\<close> of evaluation
    rules.
  \<^item> \<open>Html_Nodes\<close> (\<open>parser.py\<close> lines 1-177): the classes as the datatype
    \<open>node\<close>, one constructor per class with its attributes, and the record
    \<open>root_node\<close>.  \<open>get_node_type\<close>, \<open>get_new_node\<close>, \<open>will_accept\<close>,
    \<open>digest\<close>, \<open>root_digest\<close>, \<open>get_text\<close> and \<open>root_get_text\<close> are one
    function per method, with one equation per class.  In-place mutation is the
    returned node.  A method the class does not have (\<open>digest\<close> of
    \<open>VoidHTMLNode\<close> and \<open>DoctypeNode\<close>) is the value \<open>None\<close>, Python's
    \<open>AttributeError\<close>.  \<open>new_node_depth\<close>, \<open>digest_depth\<close>,
    \<open>root_digest_depth\<close>, \<open>get_text_depth\<close> and \<open>root_get_text_depth\<close>
    give the depth of the call chain of the same methods, branch by branch.
  \<^item> \<open>Tokenizer\<close> (\<open>parser.py\<close> lines 180-195): the loop as
    \<open>parse_loop\<close>, with the root and the buffer as its state.  It also defines
    the segmentation \<open>split_fragments\<close>, the routing of a fragment list
    \<open>digest_all\<close>, and \<open>parse_steps\<close>, which returns the state after a prefix.
  \<^item> \<open>Tree_Invariants\<close>: the right-spine invariant \<open>spine_wf\<close>/\<open>root_wf\<close>
    and the growth order \<open>grows\<close> between successive trees.
  \<^item> \<open>Text_Extraction\<close>: \<open>visible_leaves\<close>, what \<open>get_text\<close> computes,
    stated without nesting.
  \<^item> \<open>Wellformed\<close>: a document type \<open>doc\<close> of elements and texts, its
    HTML text \<open>render_docs\<close>, and well-formedness \<open>docs_wf\<close>.  Open
    elements form a chain from the root (\<open>wrap\<close>), and the routing of
    \<open>root_digest\<close>/\<open>digest\<close> always reaches the innermost one.
  \<^item> \<open>Recursion\<close>: \<open>parse_html\<close> and \<open>RootNode.get_text\<close> under CPython's
    recursion limit (\<open>parse_loop_py\<close>, \<open>parse_html_py\<close>,
    \<open>root_get_text_py\<close>, errors \<open>py_error\<close>).  Every call is checked
    against its depth, and \<open>RecursionError\<close> propagates out.
    \<open>parse_depth\<close> is the least budget a parse needs.
  \<^item> \<open>Content\<close>: \<open>node_content\<close>, all the text a tree stores.
  \<^item> \<open>Analyser\<close> (\<open>analyse.py\<close>): the \<open>re.sub\<close> cleaning as
    \<open>sub_non_word\<close>, splitting, counting into an insertion-ordered association
    list (\<open>bump\<close>, \<open>count_loop\<close>), and \<open>AnalyseResult\<close> as CPython sorts with
    \<open>reverse=True\<close> (reverse, stable sort, reverse).  \<open>word_runs\<close> is the
    reference: the maximal runs of word characters.
  \<^item> \<open>Report\<close> (\<open>run.py\<close> lines 15-18 and 30-33): \<open>str\<close> of a count
    (\<open>py_str_nat\<close>), the printed message (\<open>report_item\<close>,
    \<open>report_message\<close>), and \<open>json.dump(..., indent=4)\<close> with
    \<open>ensure_ascii\<close> (\<open>json_escape_char\<close>, \<open>json_string\<close>,
    \<open>json_array\<close>, \<open>json_item\<close>, \<open>save_to_file_content\<close>).  It also
    defines the reading side, \<open>json_load_stats\<close>, a reference for
    \<open>json.load\<close> on files of that shape.  The reader of the items is a
    \<open>partial_function (option)\<close>, and the round trip proves that it returns.
  \<^item> this theory: \<open>most_used_words\<close> (\<open>run.py\<close> lines 25-28) and
    \<open>run_main\<close> (lines 21-35), from the response \<open>requests.get\<close> returns
    to the printed text and the saved text.  \<open>raise_for_status\<close>, the
    recursion limit and the exceptions are the \<open>Inl\<close> side of a sum.

  \<^bold>\<open>What is proved.\<close>
  \<^item> Errors (\<open>Recursion\<close>, this theory):
    \<^item> under a recursion limit, parsing raises no \<open>AttributeError\<close>.  It
      returns the tree of the unbounded parser exactly when the budget reaches
      \<open>parse_depth\<close>, and raises \<open>RecursionError\<close> otherwise;
    \<^item> the number of \<open><\<close> of the page plus four frames always suffices;
    \<^item> the bound is tight: \<open>n\<close> nested tags and one more fail with
      \<open>n + 4\<close>;
    \<^item> \<open>get_text\<close> recurses twice as deep as the parse, so a page can parse
      and then fail in \<open>get_text\<close>;
    \<^item> \<open>main\<close> fails with \<open>HTTPError\<close> exactly on a 4xx or 5xx status, and
      otherwise only with \<open>RecursionError\<close>, exactly when a need exceeds the
      budget.
  \<^item> Tokenizer (\<open>Tokenizer\<close>):
    \<^item> the loop is segmentation followed by routing of the non-blank fragments;
    \<^item> closing a comment on the last fragment agrees with the spec's test on
      the accumulated content, for every two consecutive fragments delivered;
    \<^item> after \<open><textarea>\<close> all delivered text goes unparsed into one
      textarea until \<open></textarea\<close>.
  \<^item> Tree (\<open>Tree_Invariants\<close>): every parsed tree has the right-spine shape.
    Parsing a longer input only grows the tree: closed nodes are frozen and
    nothing reopens.
  \<^item> Rendering (\<open>Text_Extraction\<close>): the text is the newline join of the
    visible leaves.
  \<^item> Safety (\<open>Content\<close>): the parser and renderer invent nothing.  Every
    character of the rendered text is a character of the input or an inserted
    newline.
  \<^item> Well-formed markup (\<open>Wellformed\<close>): parsing the HTML text of a
    well-formed document gives exactly its tree, all elements closed.  Its
    rendered text is the newline join of its texts outside the invisible
    elements.
  \<^item> Classifier (\<open>Html_Nodes\<close>): \<open>get_node_type\<close> is the regular
    expression's match.
  \<^item> Analyser (\<open>Analyser\<close>):
    \<^item> counting equals a reference: the distinct words in first-occurrence order
      with their counts;
    \<^item> the sort is the stable sort by descending count;
    \<^item> the words are exactly the maximal runs of word characters of the text;
    \<^item> the top list keeps the most frequent words.
  \<^item> Output (\<open>Report\<close>): \<open>json.load\<close> reads the saved file back to exactly
    the list saved, and the saved text is pure ASCII.
  \<^item> End to end (this theory): the list \<open>run.main\<close> reports is the first ten
    of the descending-count sort of the lowered word-character runs of the page's
    visible leaves; no word spans two leaves.
  \<^item> Findings, stated as theorems:
    \<^item> deep nesting raises \<open>RecursionError\<close>, although the spec says the
      parser raises no errors.  \<open>get_text\<close> fails at about half the nesting
      depth \<open>parse_html\<close> does;
    \<^item> a tag name followed by a newline and more text is not recognised, so
      \<open>test_getting_node_types\<close> of \<open>src/html_parser/tests.py\<close> fails on
      CPython;
    \<^item> the analyser keeps \<open>\<^sup>2 \<^sup>3 \<^sup>1\<close> and the vulgar fractions in words,
      although its comment says non-letters become spaces;
    \<^item> a closing tag is a prefix test, so \<open></pre>\<close> closes \<open><p>\<close>;
    \<^item> a closing tag is compared with the innermost open element only, so
      \<open></div>\<close> inside an open \<open>span\<close> is text and leaves \<open>div\<close>
      open;
    \<^item> markup with no tag name, such as \<open>< p>\<close>, and closing tags that reach
      \<open>get_new_node\<close> become text;
    \<^item> text after the last tag is dropped;
    \<^item> a text with no word character counts the empty word.

  \<^bold>\<open>Termination and the recursion limit.\<close>  No loop of the program needs fuel.
  The loop recurses on the input, and \<open>digest\<close> recurses on the last child;
  its termination is proved by the size measure.  \<open>sub_non_word\<close>,
  \<open>word_runs\<close> and \<open>json_unescape\<close> terminate by the length measure, and
  \<open>py_str_nat\<close> by division by ten.  The reference reader
  \<open>json_lex_items\<close> is partial; the round trip shows that it returns on every
  saved file.  The one bound of the program is CPython's recursion limit.  The
  model's budget is that limit minus the depth of the calling frame, and a call
  chain of depth \<open>k\<close> fits iff \<open>k + 1\<close> does not exceed it.  The depths count
  Python frames only.  CPython 3.11 adds up to two levels for built-in calls
  and \<open>type.__call__\<close>, depending on call-site specialisation.  So the
  model's need is a lower bound on the interpreter's, within two frames.  On 64
  random pages the measured need of \<open>parse_html\<close> was one or two above the
  model's, and that of \<open>get_text\<close> zero or one above it.  The theorems
  quantify over every budget, so no choice of limit is built in.

  \<^bold>\<open>Not modelled.\<close>
  \<^item> The network request of \<open>requests.get\<close> and its own exceptions: the
    model starts from the response.  The file name \<open>str(datetime.now())\<close>
    and \<open>argparse\<close>: input only.  The texts printed and saved are modelled.
  \<^item> The recursion depth of \<open>analyse\<close>, \<open>print\<close> and \<open>json.dump\<close>:
    their call chains are a few frames deep and are taken to fit the limit.
  \<^item> The unit tests: they are tests, not implementation.  The behaviour they
    check is covered by the general theorems, and one test that disagrees with
    the code is a finding.  The parser test files under \<open>test_files/\<close> are
    not in the repository.
  \<^item> Characters beyond code point 255: outside the model's \<open>char\<close>.

  \<^bold>\<open>Plan for further work.\<close>
  \<^item> Well-formed markup with void elements, comments, a doctype and
    textareas, which \<open>docs_wf\<close> leaves out.
  \<^item> Unbalanced markup: which element an unmatched closing tag closes.\<close>

section \<open>The pipeline of \<open>run.main\<close>\<close>

text \<open>\<open>main(url)\<close> without its input and output: the fetched HTML is parsed,
  rendered, analysed, and the ten most used words are kept (\<open>src/run.py\<close>).\<close>

definition most_used_words :: "pystr \<Rightarrow> word_stats option" where
  "most_used_words html =
     map_option (\<lambda>root. get_most_used_words (analyse (root_get_text root)) 10) (parse_html html)"






section \<open>End-to-end behaviour\<close>

text \<open>C12: the list \<open>run.main\<close> reports is a function of the visible
  leaves of the parsed page: their maximal runs of word characters
  (\<open>is_word_char\<close>: letters, and also \<open>\<^sup>2 \<^sup>3 \<^sup>1\<close> and the vulgar
  fractions), lowered and counted in order of first occurrence, sorted by count,
  the ten first kept.  No word spans two leaves, since the newline that joins
  them is not a word character.\<close>

theorem most_used_words_visible_runs:
  "most_used_words html =
     map_option (\<lambda>r. take 10 (AnalyseResult (word_counts (map py_lower
        (let rs = concat (map word_runs (root_visible_leaves r)) in if rs = [] then [[]] else rs)))))
       (parse_html html)"
proof -
  have flat: "root_get_text r = py_join ''\<newline>'' (root_visible_leaves r)" for r
    by (simp add: root_get_text_join root_visible_leaves_def)
  have runs: "word_runs (py_join ''\<newline>'' xs) = concat (map word_runs xs)" for xs
    by (rule word_runs_py_join) (simp add: is_word_char_def)
  show ?thesis
    unfolding most_used_words_def get_most_used_words_def analyse_word_runs flat runs Let_def ..
qed


end
